theory Spec2Isabelle
  imports Complex_Main "HOL-Library.Sublist" "HOL-Library.Log_Nat"
begin

section \<open>ChimeIn: the moderation pipeline of \<open>server/controllers/post.controller.js\<close>\<close>

text \<open>
  The controller is embedded function by function. A JavaScript string is a \<open>string\<close>,
  the list of the bytes of its UTF-8 form (on well-formed strings \<open>includes\<close>, and
  \<open>startsWith\<close>, \<open>endsWith\<close> and \<open>slice\<close> at a \<open>/\<close>, are then the operations on
  lists). A value that may be \<open>undefined\<close> or \<open>null\<close> is an \<open>option\<close>, a number is a
  \<open>number\<close> (the exact value of a double, or an infinity), and a document id is a
  \<open>nat\<close>. What the controller only consumes (the case folding of strings, the
  regular-expression engine, the time zone, the scoring service, the file system, the
  rule file) is a field of the record \<open>env\<close>. Console output, calls of the two
  moderation functions, network requests, file deletions and store writes are recorded
  as \<open>event\<close>s, oldest first.
\<close>

subsection \<open>Strings\<close>

definition startsWith :: "string \<Rightarrow> string \<Rightarrow> bool" where
  "startsWith s p = prefix p s"

definition endsWith :: "string \<Rightarrow> string \<Rightarrow> bool" where
  "endsWith s p = suffix p s"

definition includes_str :: "string \<Rightarrow> string \<Rightarrow> bool" where
  "includes_str s p = sublist p s"

text \<open>\<open>r.slice(1, -1)\<close>: from index 1 up to, not including, the last index.\<close>

definition slice_1_neg1 :: "string \<Rightarrow> string" where
  "slice_1_neg1 r = take (length r - 1 - 1) (drop 1 r)"

text \<open>Decimal digits of a natural number.\<close>

definition digit :: "nat \<Rightarrow> char" where
  "digit n = char_of (48 + n)"

fun showNat :: "nat \<Rightarrow> string" where
  "showNat n = (if n < 10 then [digit n] else showNat (n div 10) @ [digit (n mod 10)])"

declare showNat.simps [simp del]

subsection \<open>Numbers\<close>

text \<open>
  A JavaScript number that is not \<open>NaN\<close>: a double, given by its exact value, or an
  infinity (the two zeros are one value here: \<open>||\<close>, \<open>>=\<close> and \<open>toFixed\<close> do not
  tell them apart).
\<close>

datatype number = Finite rat | PlusInfinity | MinusInfinity

text \<open>
  The number a decimal denotes, in the source or in a JSON body: the nearest double,
  the one with the even significand on a tie. For \<open>a > 0\<close>, \<open>binaryExponent a\<close> is
  the \<open>e\<close> with \<open>2^e \<le> a < 2^(e+1)\<close>; a double has 53 significant bits, none below
  \<open>2^-1074\<close>, and what rounds to \<open>2^1024\<close> or more is an infinity.
\<close>

definition pow2 :: "int \<Rightarrow> rat" where
  "pow2 k = (if 0 \<le> k then 2 ^ nat k else 1 / 2 ^ nat (- k))"

definition binaryExponent :: "rat \<Rightarrow> int" where
  "binaryExponent a =
     (let k = bitlen (fst (quotient_of a)) - bitlen (snd (quotient_of a))
      in if pow2 k \<le> a then k else k - 1)"

definition roundHalfEven :: "rat \<Rightarrow> int" where
  "roundHalfEven m =
     (let f = \<lfloor>m\<rfloor>; d = m - of_int f
      in if d < 1 / 2 then f else if 1 / 2 < d then f + 1 else if even f then f else f + 1)"

definition toDouble :: "rat \<Rightarrow> number" where
  "toDouble x =
     (if x = 0 then Finite 0
      else
        (let a = \<bar>x\<bar>;
             q = max (binaryExponent a) (- 1022) - 52;
             r = of_int (roundHalfEven (a / pow2 q)) * pow2 q
         in if 1023 < binaryExponent r then (if 0 < x then PlusInfinity else MinusInfinity)
            else Finite (if 0 < x then r else - r)))"

text \<open>\<open>x >= y\<close>\<close>

fun geq :: "number \<Rightarrow> number \<Rightarrow> bool" where
  "geq PlusInfinity y = True"
| "geq (Finite x) (Finite y) = (y \<le> x)"
| "geq (Finite x) PlusInfinity = False"
| "geq (Finite x) MinusInfinity = True"
| "geq MinusInfinity MinusInfinity = True"
| "geq MinusInfinity y = False"

subsection \<open>Documents, the store and the environment\<close>

text \<open>
  An entry of \<open>moderationRules.rules\<close>: a JSON string, or any other JSON value, which
  carries the text \<open>String(r)\<close> gives it.
\<close>

datatype rule = Str string | NonStr string

fun String :: "rule \<Rightarrow> string" where
  "String (Str s) = s"
| "String (NonStr s) = s"

fun typeof_string :: "rule \<Rightarrow> bool" where
  "typeof_string (Str s) = True"
| "typeof_string (NonStr s) = False"

type_synonym oid = nat

datatype event =
    RuleCheck "string option"
  | WarnInvalidRule rule
  | AiCheck string
  | FetchRequest string string
  | WarnNonOk nat
  | WarnApiError
  | Unlink string
  | ErrorUnlinkFailed string
  | DeletePending string
  | RemovePending oid
  | DeleteManyPending int
  | InsertPost oid
  | InsertComment oid
  | AddToSetComments oid oid
  | PullComments oid oid
  | RemoveComment oid

datatype exn = SyntaxError | TypeError | FetchError

text \<open>
  The JSON body of the scoring service, as far as the controller reads it:
  \<open>json.attributeScores[attr].summaryScore.value\<close>. The attributes are listed in the
  order of \<open>Object.keys\<close>. An absent \<open>attributeScores\<close>, \<open>summaryScore\<close> or
  \<open>value\<close> is \<open>None\<close>; a \<open>value\<close> is the decimal written in the body, which
  \<open>resp.json()\<close> reads as the number \<open>toDouble\<close> of it.
\<close>

datatype summary = Summary (summary_value: "rat option")

datatype attributeScore = AttributeScore (summaryScore: "summary option")

datatype json = Json (attributeScores: "(string \<times> attributeScore) list option")

text \<open>
  What \<open>await fetch(...)\<close> gives: the promise rejects (network error, timeout), or a
  response with \<open>ok\<close>, \<open>status\<close> and the outcome of \<open>resp.json()\<close> (\<open>None\<close>
  when the body does not parse).
\<close>

datatype fetch_result = Rejected | Resp (resp_ok: bool) (resp_status: nat) (resp_json: "json option")

record verdict =
  flagged :: bool
  reason :: "string option"
  details :: "json option"

record user =
  user_id :: oid
  role :: string

record community =
  community_id :: oid
  members :: "oid list"

record post =
  post_id :: oid
  post_user :: oid
  post_community :: oid
  post_content :: "string option"
  post_fileUrl :: "string option"
  post_fileType :: "string option"
  post_comments :: "oid list"

record comment =
  comment_id :: oid
  comment_user :: oid
  comment_post :: oid
  comment_content :: "string option"

record pendingPost =
  pending_id :: oid
  pending_user :: oid
  pending_community :: oid
  pending_content :: "string option"
  pending_fileUrl :: "string option"
  pending_fileType :: "string option"
  confirmationToken :: string
  status :: string
  createdAt :: int

record world =
  pendingPosts :: "pendingPost list"
  posts :: "post list"
  comments :: "comment list"
  users :: "user list"
  communities :: "community list"
  disk :: "string list"
  nextId :: oid
  log :: "event list"

text \<open>
  The surroundings of the controller: the rule file, \<open>String.prototype.toLowerCase\<close>
  (the case folding of the language, which takes a string as a whole),
  \<open>new RegExp(src, "i")\<close> (\<open>None\<close> when the pattern does not compile, else the
  \<open>test\<close> of the compiled expression), how the language prints a finite number of
  \<open>10^21\<close> or more, the two environment variables, the scoring service (by API key
  and text), whether \<open>fs.unlink\<close> of a path fails, the directory
  \<open>path.join(__dirname, "..", "assets", "userFiles")\<close>, the clock in milliseconds
  since the epoch, and the time zone of the server: \<open>LocalTime\<close> takes a time value
  to local time and \<open>UTC\<close> takes a local time back, as the language defines them for
  \<open>Date\<close>.
\<close>

record env =
  moderationRules :: "rule list option"
  toLowerCase :: "string \<Rightarrow> string"
  RegExp_i :: "string \<Rightarrow> (string \<Rightarrow> bool) option"
  NumberToString :: "rat \<Rightarrow> string"
  USE_PERSPECTIVE_API :: "string option"
  PERSPECTIVE_API_KEY :: "string option"
  fetch :: "string \<Rightarrow> string \<Rightarrow> fetch_result"
  unlinkFails :: "string \<Rightarrow> bool"
  userFilesDir :: string
  now :: int
  LocalTime :: "int \<Rightarrow> int"
  UTC :: "int \<Rightarrow> int"

record request =
  userId :: oid
  body_communityId :: oid
  body_content :: "string option"
  body_postId :: oid
  req_file :: "string option"
  fileUrl :: "string option"
  fileType :: "string option"
  params_confirmationToken :: string

datatype body =
    Message string
  | MessageReason string string
  | PostJson post
  | CleanupResult string nat

datatype response = Response (code: nat) (payload: body)

definition addLog :: "event list \<Rightarrow> world \<Rightarrow> world" where
  "addLog evs w = w\<lparr>log := log w @ evs\<rparr>"

fun deleteFirst :: "('a \<Rightarrow> bool) \<Rightarrow> 'a list \<Rightarrow> 'a list" where
  "deleteFirst P [] = []"
| "deleteFirst P (x # xs) = (if P x then xs else x # deleteFirst P xs)"

fun updateFirst :: "('a \<Rightarrow> bool) \<Rightarrow> ('a \<Rightarrow> 'a) \<Rightarrow> 'a list \<Rightarrow> 'a list" where
  "updateFirst P f [] = []"
| "updateFirst P f (x # xs) = (if P x then f x # xs else x # updateFirst P f xs)"

subsection \<open>\<open>safeUnlink\<close>\<close>

definition safeUnlink :: "env \<Rightarrow> string \<Rightarrow> world \<Rightarrow> world" where
  "safeUnlink env filePath w =
     (if filePath = [] then w
      else if unlinkFails env filePath \<or> filePath \<notin> set (disk w) then
        addLog [Unlink filePath, ErrorUnlinkFailed filePath] w
      else addLog [Unlink filePath] (w\<lparr>disk := removeAll filePath (disk w)\<rparr>))"

subsection \<open>\<open>matchesRuleBased\<close>\<close>

text \<open>\<open>typeof r === "string" && r.startsWith("/") && r.endsWith("/")\<close>\<close>

definition regexShaped :: "rule \<Rightarrow> bool" where
  "regexShaped r = (typeof_string r \<and> startsWith (String r) ''/'' \<and> endsWith (String r) ''/'')"

text \<open>The body of the \<open>try\<close> for one rule.\<close>

definition tryRule :: "env \<Rightarrow> string \<Rightarrow> string \<Rightarrow> rule \<Rightarrow> exn + bool" where
  "tryRule env text lower r =
     (if regexShaped r then
        (case RegExp_i env (slice_1_neg1 (String r)) of
           None \<Rightarrow> Inl SyntaxError
         | Some test \<Rightarrow> Inr (test text))
      else Inr (includes_str lower (toLowerCase env (String r))))"

text \<open>The \<open>for\<close> loop: the result, and the warnings printed.\<close>

fun scanRules :: "env \<Rightarrow> string \<Rightarrow> string \<Rightarrow> rule list \<Rightarrow> bool \<times> event list" where
  "scanRules env text lower [] = (False, [])"
| "scanRules env text lower (r # rs) =
     (case tryRule env text lower r of
        Inr True \<Rightarrow> (True, [])
      | Inr False \<Rightarrow> scanRules env text lower rs
      | Inl e \<Rightarrow>
          (fst (scanRules env text lower rs),
           WarnInvalidRule r # snd (scanRules env text lower rs)))"

text \<open>\<open>moderationRules.rules || []\<close>\<close>

definition configuredRules :: "env \<Rightarrow> rule list" where
  "configuredRules env = (case moderationRules env of None \<Rightarrow> [] | Some rs \<Rightarrow> rs)"

definition matchesRuleBased :: "env \<Rightarrow> string option \<Rightarrow> bool \<times> event list" where
  "matchesRuleBased env text =
     (case text of
        None \<Rightarrow> (False, [RuleCheck text])
      | Some t \<Rightarrow>
          if t = [] then (False, [RuleCheck text])
          else
            (let rules = configuredRules env;
                 lower = toLowerCase env t;
                 res = scanRules env t lower rules
             in (fst res, RuleCheck text # snd res)))"

text \<open>
  A match of one rule: a pattern \<open>/.../\<close> compiles and its case-insensitive
  expression accepts the text, or the lower-cased literal occurs in the lower-cased
  text.
\<close>

definition ruleMatches :: "env \<Rightarrow> string \<Rightarrow> rule \<Rightarrow> bool" where
  "ruleMatches env t r =
     (if regexShaped r then
        (case RegExp_i env (slice_1_neg1 (String r)) of None \<Rightarrow> False | Some test \<Rightarrow> test t)
      else sublist (toLowerCase env (String r)) (toLowerCase env t))"

subsection \<open>\<open>aiModerationCheck\<close>\<close>

text \<open>
  The table of thresholds, with the decimals as the source writes them. The number
  such a literal denotes is \<open>toDouble\<close> of it.
\<close>

definition thresholds :: "(string \<times> rat) list" where
  "thresholds =
     [(''TOXICITY'', 85 / 100), (''INSULT'', 85 / 100), (''THREAT'', 7 / 10),
      (''IDENTITY_ATTACK'', 8 / 10), (''SEXUALLY_EXPLICIT'', 9 / 10)]"

text \<open>
  \<open>thresholds\<close> is an object literal, so \<open>thresholds[attr]\<close> also finds what every
  object inherits from \<open>Object.prototype\<close>: for these names it is a function or an
  object (truthy, and not a number in a comparison), not \<open>undefined\<close>.
\<close>

definition inheritedNames :: "string list" where
  "inheritedNames =
     [''constructor'', ''hasOwnProperty'', ''isPrototypeOf'', ''propertyIsEnumerable'',
      ''toLocaleString'', ''toString'', ''valueOf'', ''__proto__'', ''__defineGetter__'',
      ''__defineSetter__'', ''__lookupGetter__'', ''__lookupSetter__'']"

text \<open>
  \<open>thresholds[attr] || 0.9\<close>: the number of a literal of the table or of the literal
  \<open>0.9\<close>, kept with that literal, or something that is not a number.
\<close>

datatype bound = Num rat | NotANumber

definition thresholdOf :: "string \<Rightarrow> bound" where
  "thresholdOf attr =
     (case map_of thresholds attr of
        Some t \<Rightarrow> Num t
      | None \<Rightarrow> if attr \<in> set inheritedNames then NotANumber else Num (9 / 10))"

text \<open>\<open>score >= bound\<close>: a comparison with something that is not a number is false.\<close>

fun reaches :: "number \<Rightarrow> bound \<Rightarrow> bool" where
  "reaches score (Num t) = geq score (toDouble t)"
| "reaches score NotANumber = False"

text \<open>
  \<open>score.toFixed(2)\<close>: for a finite \<open>x\<close> below \<open>10^21\<close> in size, the integer \<open>n\<close>
  with \<open>n / 100\<close> nearest to the exact value of \<open>x\<close> (the larger one on a tie),
  printed with two fractional digits after the sign; beyond that, the number as the
  language prints it.
\<close>

definition toFixed2 :: "env \<Rightarrow> number \<Rightarrow> string" where
  "toFixed2 env x =
     (case x of
        Finite r \<Rightarrow>
          (if r < 0 then ''-'' else []) @
          (if 10 ^ 21 \<le> \<bar>r\<bar> then NumberToString env \<bar>r\<bar>
           else
             (let n = nat \<lfloor>\<bar>r\<bar> * 100 + 1 / 2\<rfloor>
              in showNat (n div 100) @ ''.'' @ [digit (n mod 100 div 10), digit (n mod 10)]))
      | PlusInfinity \<Rightarrow> ''Infinity''
      | MinusInfinity \<Rightarrow> ''-Infinity'')"

text \<open>
  How a template literal prints the number of a literal of the table: as the shortest
  decimal that denotes this number, which is the literal itself. \<open>literalText\<close> is
  for a literal that is not negative and has at most two fractional digits; zeros at
  the end of the fraction are not printed (\<open>0.85\<close>, \<open>0.7\<close>).
\<close>

definition literalText :: "rat \<Rightarrow> string" where
  "literalText x =
     (let n = nat \<lfloor>x * 100\<rfloor>
      in showNat (n div 100) @
         (if n mod 100 = 0 then []
          else if n mod 10 = 0 then ''.'' @ [digit (n mod 100 div 10)]
          else ''.'' @ [digit (n mod 100 div 10), digit (n mod 10)]))"

text \<open>What is not a number is never printed: the comparison with it is false.\<close>

fun boundToString :: "bound \<Rightarrow> string" where
  "boundToString (Num t) = literalText t"
| "boundToString NotANumber = ''[object]''"

definition reasonText :: "env \<Rightarrow> string \<Rightarrow> number \<Rightarrow> string" where
  "reasonText env attr score =
     attr @ '' score '' @ toFixed2 env score @ '' >= '' @ boundToString (thresholdOf attr)"

definition safe :: verdict where
  "safe = \<lparr>flagged = False, reason = None, details = None\<rparr>"

text \<open>
  The loop over \<open>Object.keys(json.attributeScores || {})\<close>. Reading \<open>.value\<close> of a
  missing \<open>summaryScore\<close> throws a \<open>TypeError\<close>.
\<close>

fun scoreLoop ::
  "env \<Rightarrow> json \<Rightarrow> (string \<rightharpoonup> attributeScore) \<Rightarrow> string list \<Rightarrow> exn + verdict" where
  "scoreLoop env j scores [] = Inr \<lparr>flagged = False, reason = None, details = Some j\<rparr>"
| "scoreLoop env j scores (attr # attrs) =
     (case scores attr of
        None \<Rightarrow> Inl TypeError
      | Some a \<Rightarrow>
          (case summaryScore a of
             None \<Rightarrow> Inl TypeError
           | Some s \<Rightarrow>
               (let score = (case summary_value s of None \<Rightarrow> Finite 0 | Some v \<Rightarrow> toDouble v)
                in if reaches score (thresholdOf attr) then
                     Inr \<lparr>flagged = True, reason = Some (reasonText env attr score),
                          details = Some j\<rparr>
                   else scoreLoop env j scores attrs)))"

text \<open>\<open>json.attributeScores || {}\<close>\<close>

definition scoresOf :: "json \<Rightarrow> (string \<times> attributeScore) list" where
  "scoresOf j = (case attributeScores j of None \<Rightarrow> [] | Some kvs \<Rightarrow> kvs)"

text \<open>The body of the \<open>try\<close>: what it returns or throws, and what it did.\<close>

definition tryScore :: "env \<Rightarrow> string \<Rightarrow> string \<Rightarrow> (exn + verdict) \<times> event list" where
  "tryScore env key text =
     (case fetch env key text of
        Rejected \<Rightarrow> (Inl FetchError, [FetchRequest key text])
      | Resp ok st b \<Rightarrow>
          if \<not> ok then (Inr safe, [FetchRequest key text, WarnNonOk st])
          else
            (case b of
               None \<Rightarrow> (Inl SyntaxError, [FetchRequest key text])
             | Some j \<Rightarrow>
                 (let scores = scoresOf j
                  in (scoreLoop env j (map_of scores) (map fst scores), [FetchRequest key text]))))"


definition aiModerationCheck :: "env \<Rightarrow> string \<Rightarrow> verdict \<times> event list" where
  "aiModerationCheck env text =
     (if text = [] then (safe, [AiCheck text])
      else
        (case PERSPECTIVE_API_KEY env of
           None \<Rightarrow> (safe, [AiCheck text])
         | Some key \<Rightarrow>
             if USE_PERSPECTIVE_API env = Some ''true'' \<and> key \<noteq> [] then
               (case tryScore env key text of
                  (Inr v, evs) \<Rightarrow> (v, AiCheck text # evs)
                | (Inl err, evs) \<Rightarrow> (safe, AiCheck text # evs @ [WarnApiError]))
             else (safe, [AiCheck text])))"

subsection \<open>Store operations\<close>

definition savePost :: "post \<Rightarrow> world \<Rightarrow> oid \<times> world" where
  "savePost p w =
     (nextId w,
      w\<lparr>posts := posts w @ [p\<lparr>post_id := nextId w\<rparr>],
        nextId := Suc (nextId w),
        log := log w @ [InsertPost (nextId w)]\<rparr>)"

definition findPostById :: "oid \<Rightarrow> world \<Rightarrow> post option" where
  "findPostById i w = find (\<lambda>p. post_id p = i) (posts w)"

definition saveComment :: "comment \<Rightarrow> world \<Rightarrow> oid \<times> world" where
  "saveComment c w =
     (nextId w,
      w\<lparr>comments := comments w @ [c\<lparr>comment_id := nextId w\<rparr>],
        nextId := Suc (nextId w),
        log := log w @ [InsertComment (nextId w)]\<rparr>)"

text \<open>\<open>Post.findOneAndUpdate({_id}, {$addToSet: {comments: c}})\<close>\<close>

definition addToSetComments :: "oid \<Rightarrow> oid \<Rightarrow> world \<Rightarrow> world" where
  "addToSetComments p c w =
     w\<lparr>posts :=
         updateFirst (\<lambda>x. post_id x = p)
           (\<lambda>x. if c \<in> set (post_comments x) then x
                else x\<lparr>post_comments := post_comments x @ [c]\<rparr>)
           (posts w),
       log := log w @ [AddToSetComments p c]\<rparr>"

text \<open>\<open>Post.findByIdAndUpdate(p, {$pull: {comments: c}})\<close>\<close>

definition pullComments :: "oid \<Rightarrow> oid \<Rightarrow> world \<Rightarrow> world" where
  "pullComments p c w =
     w\<lparr>posts :=
         updateFirst (\<lambda>x. post_id x = p)
           (\<lambda>x. x\<lparr>post_comments := removeAll c (post_comments x)\<rparr>)
           (posts w),
       log := log w @ [PullComments p c]\<rparr>"

text \<open>\<open>comment.remove()\<close>: the document with this \<open>_id\<close> is deleted, if still there.\<close>

definition removeComment :: "oid \<Rightarrow> world \<Rightarrow> world" where
  "removeComment c w =
     w\<lparr>comments := deleteFirst (\<lambda>x. comment_id x = c) (comments w),
       log := log w @ [RemoveComment c]\<rparr>"

text \<open>The filter of \<open>PendingPost.findOne\<close> in \<open>confirmPost\<close> and \<open>rejectPost\<close>.\<close>

definition pendingFilter :: "string \<Rightarrow> oid \<Rightarrow> pendingPost \<Rightarrow> bool" where
  "pendingFilter token uid p =
     (confirmationToken p = token \<and> status p = ''pending'' \<and> pending_user p = uid)"

definition findOnePending :: "string \<Rightarrow> oid \<Rightarrow> world \<Rightarrow> pendingPost option" where
  "findOnePending token uid w = find (pendingFilter token uid) (pendingPosts w)"

text \<open>\<open>PendingPost.findOneAndDelete({confirmationToken})\<close>\<close>

definition findOneAndDeletePending :: "string \<Rightarrow> world \<Rightarrow> world" where
  "findOneAndDeletePending token w =
     w\<lparr>pendingPosts := deleteFirst (\<lambda>p. confirmationToken p = token) (pendingPosts w),
       log := log w @ [DeletePending token]\<rparr>"

text \<open>\<open>pendingPost.remove()\<close>\<close>

definition removePending :: "oid \<Rightarrow> world \<Rightarrow> world" where
  "removePending i w =
     w\<lparr>pendingPosts := deleteFirst (\<lambda>p. pending_id p = i) (pendingPosts w),
       log := log w @ [RemovePending i]\<rparr>"

text \<open>\<open>PendingPost.deleteMany({createdAt: {$lte: date}})\<close>\<close>

definition deleteManyPending :: "int \<Rightarrow> world \<Rightarrow> world" where
  "deleteManyPending date w =
     w\<lparr>pendingPosts := filter (\<lambda>p. \<not> createdAt p \<le> date) (pendingPosts w),
       log := log w @ [DeleteManyPending date]\<rparr>"

definition findUserById :: "oid \<Rightarrow> world \<Rightarrow> user option" where
  "findUserById i w = find (\<lambda>u. user_id u = i) (users w)"

subsection \<open>\<open>createPost\<close>\<close>

text \<open>\<open>Community.findOne({_id: {$eq: communityId}, members: {$eq: userId}})\<close>\<close>

definition findCommunity :: "oid \<Rightarrow> oid \<Rightarrow> world \<Rightarrow> community option" where
  "findCommunity c u w =
     find (\<lambda>x. community_id x = c \<and> u \<in> set (members x)) (communities w)"

text \<open>The rollback each refusing branch of \<open>createPost\<close> runs: \<open>if (file) safeUnlink(...)\<close>.\<close>

definition unlinkUpload :: "env \<Rightarrow> request \<Rightarrow> world \<Rightarrow> world" where
  "unlinkUpload env req w =
     (case req_file req of
        None \<Rightarrow> w
      | Some filename \<Rightarrow> safeUnlink env (userFilesDir env @ ''/'' @ filename) w)"

text \<open>\<open>aiCheck.reason || "AI flagged the content"\<close>\<close>

definition reasonOrDefault :: "verdict \<Rightarrow> string" where
  "reasonOrDefault v =
     (case reason v of
        None \<Rightarrow> ''AI flagged the content''
      | Some r \<Rightarrow> if r = [] then ''AI flagged the content'' else r)"

definition contentOrEmpty :: "string option \<Rightarrow> string" where
  "contentOrEmpty content = (case content of None \<Rightarrow> [] | Some c \<Rightarrow> c)"

text \<open>\<open>x ? x : null\<close>\<close>

definition orNull :: "string option \<Rightarrow> string option" where
  "orNull x = (case x of None \<Rightarrow> None | Some s \<Rightarrow> if s = [] then None else Some s)"

definition createPost :: "env \<Rightarrow> world \<Rightarrow> request \<Rightarrow> response \<times> world" where
  "createPost env w req =
     (case findCommunity (body_communityId req) (userId req) w of
        None \<Rightarrow>
          (Response 401 (Message ''Unauthorized to post in this community''),
           unlinkUpload env req w)
      | Some community \<Rightarrow>
          (let rb = matchesRuleBased env (Some (contentOrEmpty (body_content req)));
               w1 = addLog (snd rb) w
           in if fst rb then
                (Response 403 (Message ''Post blocked by moderation (rule match)''),
                 unlinkUpload env req w1)
              else
                (let ai = aiModerationCheck env (contentOrEmpty (body_content req));
                     aiCheck = fst ai;
                     w2 = addLog (snd ai) w1
                 in if flagged aiCheck then
                      (Response 403
                         (MessageReason ''Post blocked by moderation (AI)'' (reasonOrDefault aiCheck)),
                       unlinkUpload env req w2)
                    else
                      (let newPost =
                             \<lparr>post_id = 0, post_user = userId req,
                              post_community = body_communityId req,
                              post_content = body_content req,
                              post_fileUrl = orNull (fileUrl req),
                              post_fileType = orNull (fileType req),
                              post_comments = []\<rparr>;
                           saved = savePost newPost w2
                       in case findPostById (fst saved) (snd saved) of
                            None \<Rightarrow> (Response 500 (Message ''Error creating post''), snd saved)
                          | Some p \<Rightarrow> (Response 200 (PostJson p), snd saved)))))"

subsection \<open>\<open>addComment\<close>\<close>

definition addComment :: "env \<Rightarrow> world \<Rightarrow> request \<Rightarrow> response \<times> world" where
  "addComment env w req =
     (let rb = matchesRuleBased env (Some (contentOrEmpty (body_content req)));
          w1 = addLog (snd rb) w
      in if fst rb then
           (Response 403 (Message ''Comment blocked by moderation (rule match)''), w1)
         else
           (let ai = aiModerationCheck env (contentOrEmpty (body_content req));
                aiCheck = fst ai;
                w2 = addLog (snd ai) w1
            in if flagged aiCheck then
                 (Response 403
                    (MessageReason ''Comment blocked by moderation (AI)'' (reasonOrDefault aiCheck)),
                  w2)
               else
                 (let newComment =
                        \<lparr>comment_id = 0, comment_user = userId req,
                         comment_post = body_postId req, comment_content = body_content req\<rparr>;
                      saved = saveComment newComment w2
                  in (Response 200 (Message ''Comment added successfully''),
                      addToSetComments (body_postId req) (fst saved) (snd saved)))))"

subsection \<open>\<open>confirmPost\<close>, \<open>rejectPost\<close>, \<open>clearPendingPosts\<close>\<close>

definition postOfPending :: "pendingPost \<Rightarrow> post" where
  "postOfPending p =
     \<lparr>post_id = 0, post_user = pending_user p, post_community = pending_community p,
      post_content = pending_content p, post_fileUrl = pending_fileUrl p,
      post_fileType = pending_fileType p, post_comments = []\<rparr>"

definition confirmPost :: "world \<Rightarrow> request \<Rightarrow> response \<times> world" where
  "confirmPost w req =
     (case findOnePending (params_confirmationToken req) (userId req) w of
        None \<Rightarrow> (Response 404 (Message ''Post not found''), w)
      | Some pendingPost \<Rightarrow>
          (let newPost = postOfPending pendingPost;
               w1 = findOneAndDeletePending (params_confirmationToken req) w;
               saved = savePost newPost w1
           in case findPostById (fst saved) (snd saved) of
                None \<Rightarrow> (Response 500 (Message ''Error publishing post''), snd saved)
              | Some p \<Rightarrow> (Response 200 (PostJson p), snd saved)))"

definition rejectPost :: "world \<Rightarrow> request \<Rightarrow> response \<times> world" where
  "rejectPost w req =
     (case findOnePending (params_confirmationToken req) (userId req) w of
        None \<Rightarrow> (Response 404 (Message ''Post not found''), w)
      | Some pendingPost \<Rightarrow>
          (Response 201 (Message ''Post rejected''), removePending (pending_id pendingPost) w))"

text \<open>
  \<open>Date.prototype.getHours\<close> and \<open>setHours\<close> for a date of time value \<open>d\<close>, by
  their definition in the language standard: both work on the local time \<open>t\<close> of \<open>d\<close>.
  \<open>getHours\<close> is the hour of \<open>t\<close>; \<open>setHours(h)\<close> makes the local time with the
  day, minute, second and millisecond of \<open>t\<close> and the hour \<open>h\<close> (an hour below 0 or
  above 23 reaches into a neighbouring day), and takes it back with \<open>UTC\<close>. Time
  values stay far inside the range of \<open>Date\<close>.
\<close>

definition msPerDay :: int where "msPerDay = 86400000"
definition msPerHour :: int where "msPerHour = 3600000"
definition msPerMinute :: int where "msPerMinute = 60000"
definition msPerSecond :: int where "msPerSecond = 1000"

definition Day :: "int \<Rightarrow> int" where "Day t = t div msPerDay"
definition HourFromTime :: "int \<Rightarrow> int" where "HourFromTime t = (t div msPerHour) mod 24"
definition MinFromTime :: "int \<Rightarrow> int" where "MinFromTime t = (t div msPerMinute) mod 60"
definition SecFromTime :: "int \<Rightarrow> int" where "SecFromTime t = (t div msPerSecond) mod 60"
definition msFromTime :: "int \<Rightarrow> int" where "msFromTime t = t mod msPerSecond"

definition MakeTime :: "int \<Rightarrow> int \<Rightarrow> int \<Rightarrow> int \<Rightarrow> int" where
  "MakeTime hour minute sec ms = hour * msPerHour + minute * msPerMinute + sec * msPerSecond + ms"

definition MakeDate :: "int \<Rightarrow> int \<Rightarrow> int" where
  "MakeDate day time = day * msPerDay + time"

definition getHours :: "env \<Rightarrow> int \<Rightarrow> int" where
  "getHours env d = HourFromTime (LocalTime env d)"

definition setHours :: "env \<Rightarrow> int \<Rightarrow> int \<Rightarrow> int" where
  "setHours env d h =
     (let t = LocalTime env d
      in UTC env (MakeDate (Day t) (MakeTime h (MinFromTime t) (SecFromTime t) (msFromTime t))))"

text \<open>
  \<open>user.role\<close> of a user that was not found throws and ends in the \<open>catch\<close>.
\<close>

definition clearPendingPosts :: "env \<Rightarrow> world \<Rightarrow> request \<Rightarrow> response \<times> world" where
  "clearPendingPosts env w req =
     (case findUserById (userId req) w of
        None \<Rightarrow> (Response 500 (Message ''Error clearing pending posts''), w)
      | Some user \<Rightarrow>
          if role user \<noteq> ''moderator'' then (Response 401 (Message ''Unauthorized''), w)
          else
            (let date = now env;
                 date = setHours env date (getHours env date - 1)
             in (Response 200 (Message ''Pending posts cleared''), deleteManyPending date w)))"

subsection \<open>\<open>cleanupOffensiveComments\<close>\<close>

fun cleanupLoop :: "env \<Rightarrow> comment list \<Rightarrow> world \<Rightarrow> nat \<Rightarrow> world \<times> nat" where
  "cleanupLoop env [] w deletedCount = (w, deletedCount)"
| "cleanupLoop env (c # allComments) w deletedCount =
     (let rb = matchesRuleBased env (comment_content c);
          w1 = addLog (snd rb) w
      in if fst rb then
           cleanupLoop env allComments
             (removeComment (comment_id c) (pullComments (comment_post c) (comment_id c) w1))
             (deletedCount + 1)
         else cleanupLoop env allComments w1 deletedCount)"

definition cleanupOffensiveComments :: "env \<Rightarrow> world \<Rightarrow> request \<Rightarrow> response \<times> world" where
  "cleanupOffensiveComments env w req =
     (case findUserById (userId req) w of
        None \<Rightarrow> (Response 403 (Message ''Admin access required''), w)
      | Some user \<Rightarrow>
          if role user \<noteq> ''admin'' then (Response 403 (Message ''Admin access required''), w)
          else
            (let res = cleanupLoop env (comments w) w 0
             in (Response 200
                   (CleanupResult
                      (''Cleanup complete. Removed '' @ showNat (snd res) @ '' offensive comments.'')
                      (snd res)),
                 fst res)))"

subsection \<open>Two requests at once\<close>

text \<open>
  A handler gives up control at each \<open>await\<close>, and each store operation is one step
  of the data layer. \<open>task\<close> is where a running \<open>confirmPost\<close> or \<open>rejectPost\<close>
  stands, with the local variables it still needs; \<open>step\<close> runs it up to its next
  \<open>await\<close>. \<open>run\<close> interleaves two handlers on one store: \<open>True\<close> lets the first
  one take a step, \<open>False\<close> the second.
\<close>

datatype task =
    ConfirmFind request
  | ConfirmDelete request post
  | ConfirmSave post
  | ConfirmLoad oid
  | RejectFind request
  | RejectRemove pendingPost
  | Finished response

fun step :: "task \<Rightarrow> world \<Rightarrow> task \<times> world" where
  "step (ConfirmFind req) w =
     (case findOnePending (params_confirmationToken req) (userId req) w of
        None \<Rightarrow> (Finished (Response 404 (Message ''Post not found'')), w)
      | Some pendingPost \<Rightarrow> (ConfirmDelete req (postOfPending pendingPost), w))"
| "step (ConfirmDelete req newPost) w =
     (ConfirmSave newPost, findOneAndDeletePending (params_confirmationToken req) w)"
| "step (ConfirmSave newPost) w = (ConfirmLoad (fst (savePost newPost w)), snd (savePost newPost w))"
| "step (ConfirmLoad i) w =
     (case findPostById i w of
        None \<Rightarrow> (Finished (Response 500 (Message ''Error publishing post'')), w)
      | Some p \<Rightarrow> (Finished (Response 200 (PostJson p)), w))"
| "step (RejectFind req) w =
     (case findOnePending (params_confirmationToken req) (userId req) w of
        None \<Rightarrow> (Finished (Response 404 (Message ''Post not found'')), w)
      | Some pendingPost \<Rightarrow> (RejectRemove pendingPost, w))"
| "step (RejectRemove pendingPost) w =
     (Finished (Response 201 (Message ''Post rejected'')), removePending (pending_id pendingPost) w)"
| "step (Finished r) w = (Finished r, w)"

fun steps :: "nat \<Rightarrow> task \<Rightarrow> world \<Rightarrow> task \<times> world" where
  "steps 0 t w = (t, w)"
| "steps (Suc n) t w = steps n (fst (step t w)) (snd (step t w))"

fun run :: "bool list \<Rightarrow> task \<Rightarrow> task \<Rightarrow> world \<Rightarrow> task \<times> task \<times> world" where
  "run [] t1 t2 w = (t1, t2, w)"
| "run (b # bs) t1 t2 w =
     (if b then run bs (fst (step t1 w)) t2 (snd (step t1 w))
      else run bs t1 (fst (step t2 w)) (snd (step t2 w)))"

fun succeeded :: "task \<Rightarrow> bool" where
  "succeeded (Finished r) = (code r = 200 \<or> code r = 201)"
| "succeeded t = False"

subsection \<open>What the sweep is meant to do\<close>

text \<open>
  A comment is offensive when a rule matches its text. For one comment the sweep
  leaves the events of the rule check and, for an offensive one, the two store
  writes in this order. \<open>withoutComments bad p\<close> is the post \<open>p\<close> with the
  references to those comments of \<open>bad\<close> whose parent it is taken out.
\<close>

definition offensive :: "env \<Rightarrow> comment \<Rightarrow> bool" where
  "offensive env c = fst (matchesRuleBased env (comment_content c))"

definition sweepEvents :: "env \<Rightarrow> comment \<Rightarrow> event list" where
  "sweepEvents env c =
     snd (matchesRuleBased env (comment_content c)) @
     (if offensive env c then
        [PullComments (comment_post c) (comment_id c), RemoveComment (comment_id c)]
      else [])"

definition withoutComments :: "comment list \<Rightarrow> post \<Rightarrow> post" where
  "withoutComments bad p =
     p\<lparr>post_comments :=
         filter (\<lambda>i. \<not> (\<exists>c\<in>set bad. comment_id c = i \<and> comment_post c = post_id p))
           (post_comments p)\<rparr>"

subsection \<open>Reading the log\<close>

text \<open>What a call added to the log, and which events the scorer and the matcher leave.\<close>

definition newEvents :: "world \<Rightarrow> world \<Rightarrow> event list" where
  "newEvents w w' = drop (length (log w)) (log w')"

fun scorerEvent :: "event \<Rightarrow> bool" where
  "scorerEvent (AiCheck t) = True"
| "scorerEvent (FetchRequest k t) = True"
| "scorerEvent (WarnNonOk n) = True"
| "scorerEvent WarnApiError = True"
| "scorerEvent e = False"

fun matcherEvent :: "event \<Rightarrow> bool" where
  "matcherEvent (RuleCheck t) = True"
| "matcherEvent (WarnInvalidRule r) = True"
| "matcherEvent e = False"

subsection \<open>A small configuration to run the functions on\<close>

text \<open>
  Stand-ins for the surroundings: the case folding of the language on ASCII text (the
  letters \<open>A\<close> to \<open>Z\<close>, each in its place), an expression engine (the pattern is
  looked for as a literal, and \<open>[\<close> does not compile), a printer of large numbers
  that knows \<open>10^21\<close> only (no example calls it), the scoring service, and a server
  on UTC.
\<close>

definition lowerChar :: "char \<Rightarrow> char" where
  "lowerChar c =
     (let n = (of_char c :: nat) in if 65 \<le> n \<and> n \<le> 90 then char_of (n + 32) else c)"

definition asciiLower :: "string \<Rightarrow> string" where
  "asciiLower s = map lowerChar s"

definition demoRegExp :: "string \<Rightarrow> (string \<Rightarrow> bool) option" where
  "demoRegExp src =
     (if src = ''['' then None else Some (\<lambda>t. sublist (asciiLower src) (asciiLower t)))"

definition demoFetch :: "string \<Rightarrow> string \<Rightarrow> fetch_result" where
  "demoFetch key text =
     (if text = ''timeout'' then Rejected
      else if text = ''outage'' then Resp False 503 None
      else if text = ''mild'' then
        Resp True 200
          (Some (Json (Some [(''TOXICITY'', AttributeScore (Some (Summary (Some (1 / 10))))),
                             (''FLIRTATION'', AttributeScore (Some (Summary (Some (8 / 10)))))])))
      else Resp True 200
             (Some (Json (Some [(''INSULT'', AttributeScore (Some (Summary (Some (1 / 10))))),
                                (''TOXICITY'', AttributeScore (Some (Summary (Some (9 / 10)))))]))))"

definition demoEnv :: env where
  "demoEnv =
     \<lparr>moderationRules = Some [Str ''/[/'', Str ''spam'', Str ''/free money/''],
      toLowerCase = asciiLower, RegExp_i = demoRegExp, NumberToString = (\<lambda>x. ''1e+21''),
      USE_PERSPECTIVE_API = Some ''true'',
      PERSPECTIVE_API_KEY = Some ''key'', fetch = demoFetch, unlinkFails = (\<lambda>p. False),
      userFilesDir = ''assets/userFiles'', now = 7200000,
      LocalTime = (\<lambda>t. t), UTC = (\<lambda>t. t)\<rparr>"

text \<open>A store with one community, two pending posts, one post and three comments.\<close>

definition demoWorld :: world where
  "demoWorld =
     \<lparr>pendingPosts =
        [\<lparr>pending_id = 30, pending_user = 3, pending_community = 10,
          pending_content = Some ''buy spam here'', pending_fileUrl = Some ''/files/a.png'',
          pending_fileType = Some ''image/png'', confirmationToken = ''tok1'',
          status = ''pending'', createdAt = 1000\<rparr>,
         \<lparr>pending_id = 31, pending_user = 4, pending_community = 10,
          pending_content = Some ''later'', pending_fileUrl = None,
          pending_fileType = None, confirmationToken = ''tok2'',
          status = ''pending'', createdAt = 5000000\<rparr>],
      posts =
        [\<lparr>post_id = 20, post_user = 3, post_community = 10, post_content = Some ''first'',
          post_fileUrl = None, post_fileType = None, post_comments = [40, 41, 42]\<rparr>],
      comments =
        [\<lparr>comment_id = 40, comment_user = 3, comment_post = 20, comment_content = Some ''nice''\<rparr>,
         \<lparr>comment_id = 41, comment_user = 4, comment_post = 20,
          comment_content = Some ''cheap SPAM''\<rparr>,
         \<lparr>comment_id = 42, comment_user = 3, comment_post = 20, comment_content = None\<rparr>],
      users =
        [\<lparr>user_id = 1, role = ''admin''\<rparr>, \<lparr>user_id = 2, role = ''moderator''\<rparr>,
         \<lparr>user_id = 3, role = ''general''\<rparr>],
      communities = [\<lparr>community_id = 10, members = [3, 4]\<rparr>],
      disk = [''assets/userFiles/cat.png''],
      nextId = 100,
      log = []\<rparr>"

definition demoRequest :: request where
  "demoRequest =
     \<lparr>userId = 3, body_communityId = 10, body_content = Some ''This is SPAM content'',
      body_postId = 20, req_file = Some ''cat.png'', fileUrl = Some ''/files/cat.png'',
      fileType = Some ''image/png'', params_confirmationToken = ''tok1''\<rparr>"



text \<open>
  Three texts in UTF-8 that are not ASCII, and what \<open>String.prototype.toLowerCase\<close>
  makes of them. From the capital letters alpha and sigma (\<open>CE 91\<close>, \<open>CE A3\<close>): a
  capital sigma alone becomes the small sigma (\<open>CF 83\<close>), a capital sigma that ends a
  word becomes the final sigma (\<open>CF 82\<close>), and the capital alpha the small alpha
  (\<open>CE B1\<close>). The word \<open>ECOLE\<close> with an acute accent on its first letter (\<open>C3 89\<close>)
  becomes \<open>ecole\<close> with that accent (\<open>C3 A9\<close>). The stand-in \<open>sampleLower\<close> is
  the case folding of the language on these three texts and on ASCII text.
\<close>

definition capitalSigma :: string where
  "capitalSigma = [CHR 0xCE, CHR 0xA3]"

definition capitalAlphaSigma :: string where
  "capitalAlphaSigma = [CHR 0xCE, CHR 0x91, CHR 0xCE, CHR 0xA3]"

definition capitalEcole :: string where
  "capitalEcole = [CHR 0xC3, CHR 0x89] @ ''COLE''"

definition smallEcole :: string where
  "smallEcole = [CHR 0xC3, CHR 0xA9] @ ''cole''"

definition sampleLower :: "string \<Rightarrow> string" where
  "sampleLower s =
     (if s = capitalSigma then [CHR 0xCF, CHR 0x83]
      else if s = capitalAlphaSigma then [CHR 0xCE, CHR 0xB1, CHR 0xCF, CHR 0x82]
      else if s = capitalEcole then smallEcole
      else asciiLower s)"

definition greekEnv :: env where
  "greekEnv = demoEnv\<lparr>moderationRules := Some [Str capitalSigma], toLowerCase := sampleLower\<rparr>"

definition frenchEnv :: env where
  "frenchEnv = demoEnv\<lparr>moderationRules := Some [Str smallEcole], toLowerCase := sampleLower\<rparr>"

text \<open>
  Two servers whose local clock changed at the time value 7000000, 200 seconds before
  \<open>now\<close>. In \<open>autumnEnv\<close> it was set back one hour, from one hour ahead of UTC to
  UTC; in \<open>springEnv\<close> it was set forward one hour, from UTC to one hour ahead. A
  local time that the change repeats or skips is read with the offset from before the
  change, as the language has it.
\<close>

definition autumnEnv :: env where
  "autumnEnv =
     demoEnv\<lparr>LocalTime := (\<lambda>t. if t < 7000000 then t + 3600000 else t),
             UTC := (\<lambda>t. if t < 7000000 + 3600000 then t - 3600000 else t)\<rparr>"

definition springEnv :: env where
  "springEnv =
     demoEnv\<lparr>LocalTime := (\<lambda>t. if t < 7000000 then t else t + 3600000),
             UTC := (\<lambda>t. if t < 7000000 + 3600000 then t else t - 3600000)\<rparr>"

section \<open>Properties\<close>

subsection \<open>Doubles\<close>

text \<open>
  \<open>binaryExponent\<close> is the exponent of the power of two at or below a positive
  rational; the number \<open>toDouble\<close> gives is a multiple of the spacing of the doubles
  at that exponent, and no more than half that spacing away.
\<close>

lemma pow2_pos: "0 < pow2 k"
  by (simp add: pow2_def)

lemma pow2_add: "pow2 (a + b) = pow2 a * pow2 b"
proof -
  have "pow2 k = 2 powi k" for k
    by (simp add: pow2_def power_int_def field_simps)
  then show ?thesis
    by (simp add: power_int_add)
qed

lemma binaryExponent_bounds:
  assumes "0 < a"
  shows "pow2 (binaryExponent a) \<le> a \<and> a < pow2 (binaryExponent a + 1)"
proof -
  obtain p q where pq: "quotient_of a = (p, q)"
    by (cases "quotient_of a")
  have q: "0 < q" and a: "a = of_int p / of_int q"
    using pq quotient_of_denom_pos quotient_of_div by blast+
  have p: "0 < p"
    using assms q a by (simp add: zero_less_divide_iff)
  define k where "k = bitlen p - bitlen q"
  have bp: "2 ^ nat (bitlen p - 1) \<le> p" "p < 2 ^ nat (bitlen p)"
    using bitlen_bounds [OF p] by simp_all
  have bq: "2 ^ nat (bitlen q - 1) \<le> q" "q < 2 ^ nat (bitlen q)"
    using bitlen_bounds [OF q] by simp_all
  have lp: "1 \<le> bitlen p" and lq: "1 \<le> bitlen q"
    using p q by (simp_all add: bitlen_alt_def)
  have ofint: "pow2 (b - 1) \<le> of_int x \<and> of_int x < pow2 b"
    if "2 ^ nat (b - 1) \<le> x" "x < 2 ^ nat b" "1 \<le> b" for b x :: int
  proof -
    have "(of_int (2 ^ nat (b - 1)) :: rat) \<le> of_int x" "(of_int x :: rat) < of_int (2 ^ nat b)"
      using that(1,2) by (simp_all only: of_int_le_iff of_int_less_iff)
    then show ?thesis
      using that(3) by (simp add: pow2_def)
  qed
  have P: "pow2 (bitlen p - 1) \<le> of_int p" "of_int p < pow2 (bitlen p)"
    using ofint [OF bp lp] by simp_all
  have Q: "pow2 (bitlen q - 1) \<le> of_int q" "of_int q < pow2 (bitlen q)"
    using ofint [OF bq lq] by simp_all
  have up: "a < pow2 (k + 1)"
  proof -
    have "of_int p < pow2 (k + 1) * pow2 (bitlen q - 1)"
      using P(2) by (simp add: pow2_add [symmetric] k_def)
    also have "\<dots> \<le> pow2 (k + 1) * of_int q"
      using Q(1) pow2_pos [of "k + 1"] by simp
    finally show ?thesis
      using q by (simp add: a pos_divide_less_eq)
  qed
  have lo: "pow2 (k - 1) < a"
  proof -
    have "pow2 (k - 1) * of_int q < pow2 (k - 1) * pow2 (bitlen q)"
      using Q(2) pow2_pos [of "k - 1"] by simp
    also have "\<dots> = pow2 (bitlen p - 1)"
      by (simp add: pow2_add [symmetric] k_def)
    also have "\<dots> \<le> of_int p"
      by (rule P(1))
    finally show ?thesis
      using q by (simp add: a pos_less_divide_eq)
  qed
  show ?thesis
  proof (cases "pow2 k \<le> a")
    case True
    then show ?thesis
      using up by (simp add: binaryExponent_def pq k_def Let_def)
  next
    case False
    then have "a < pow2 k"
      by simp
    with lo False show ?thesis
      by (simp add: binaryExponent_def pq k_def Let_def)
  qed
qed

lemma roundHalfEven_near: "\<bar>of_int (roundHalfEven m) - m\<bar> \<le> 1 / 2"
proof -
  have "of_int \<lfloor>m\<rfloor> \<le> m" "m < of_int \<lfloor>m\<rfloor> + 1"
    by linarith+
  then show ?thesis
    by (auto simp: roundHalfEven_def Let_def abs_le_iff)
qed

lemma toDouble_near:
  assumes "toDouble x = Finite y"
  shows "\<exists>n. y = of_int n * pow2 (max (binaryExponent \<bar>x\<bar>) (- 1022) - 52) \<and>
     \<bar>y - x\<bar> \<le> pow2 (max (binaryExponent \<bar>x\<bar>) (- 1022) - 52) / 2"
proof (cases "x = 0")
  case True
  with assms show ?thesis
    by (auto simp: toDouble_def intro: exI [of _ 0] less_imp_le [OF pow2_pos])
next
  case False
  define q where "q = max (binaryExponent \<bar>x\<bar>) (- 1022) - 52"
  define n where "n = roundHalfEven (\<bar>x\<bar> / pow2 q)"
  have y: "y = (if 0 < x then of_int n * pow2 q else - (of_int n * pow2 q))"
    using assms False by (simp add: toDouble_def Let_def q_def n_def split: if_splits)
  have "\<bar>of_int n - \<bar>x\<bar> / pow2 q\<bar> \<le> 1 / 2"
    unfolding n_def by (rule roundHalfEven_near)
  then have "\<bar>of_int n - \<bar>x\<bar> / pow2 q\<bar> * \<bar>pow2 q\<bar> \<le> 1 / 2 * pow2 q"
    using pow2_pos [of q] by (simp add: mult_right_mono)
  moreover have "(of_int n - \<bar>x\<bar> / pow2 q) * pow2 q = of_int n * pow2 q - \<bar>x\<bar>"
    using pow2_pos [of q] by (simp add: left_diff_distrib)
  ultimately have d: "\<bar>of_int n * pow2 q - \<bar>x\<bar>\<bar> \<le> pow2 q / 2"
    by (simp add: abs_mult [symmetric])
  show ?thesis
  proof (cases "0 < x")
    case True
    with y d show ?thesis
      unfolding q_def [symmetric] by (intro exI [of _ n]) simp
  next
    case neg: False
    with y d show ?thesis
      unfolding q_def [symmetric] by (intro exI [of _ "- n"]) (simp add: abs_if split: if_splits)
  qed
qed

lemma doubles_of_the_literals:
  "toDouble (85 / 100) = Finite (7656119366529843 / 2 ^ 53)"
  "toDouble (7 / 10) = Finite (3152519739159347 / 2 ^ 52)"
  "toDouble (8 / 10) = Finite (3602879701896397 / 2 ^ 52)"
  "toDouble (9 / 10) = Finite (8106479329266893 / 2 ^ 53)"
  by code_simp+

subsection \<open>The rule matcher\<close>

lemma tryRule_upd [simp]: "tryRule (env\<lparr>moderationRules := x\<rparr>) t l r = tryRule env t l r"
  by (simp add: tryRule_def)

lemma scanRules_upd [simp]: "scanRules (env\<lparr>moderationRules := x\<rparr>) t l rs = scanRules env t l rs"
  by (induction rs) (simp_all split: sum.splits bool.splits)

lemma tryRule_True_iff: "tryRule env t (toLowerCase env t) r = Inr True \<longleftrightarrow> ruleMatches env t r"
  by (auto simp: tryRule_def ruleMatches_def includes_str_def split: option.splits)

lemma scanRules_fst: "fst (scanRules env t l rs) \<longleftrightarrow> (\<exists>r\<in>set rs. tryRule env t l r = Inr True)"
  by (induction rs) (auto split: sum.splits bool.splits)

lemma scanRules_snd:
  "snd (scanRules env t l rs) =
     map WarnInvalidRule (filter (\<lambda>r. isl (tryRule env t l r)) (takeWhile (\<lambda>r. tryRule env t l r \<noteq> Inr True) rs))"
  by (induction rs) (auto split: sum.splits bool.splits)

lemma scanRules_short: "tryRule env t l r = Inr True \<Longrightarrow> scanRules env t l (pre @ r # post) = scanRules env t l (pre @ [r])"
  by (induction pre) (auto split: sum.splits bool.splits)

lemma scanRules_skip: "isl (tryRule env t l r) \<Longrightarrow> fst (scanRules env t l (pre @ r # post)) = fst (scanRules env t l (pre @ post))"
  by (simp add: scanRules_fst) (auto simp: isl_def)


text \<open>
  C5. A literal rule is looked for lower-cased in the lower-cased text, and the
  language lower-cases a text as a whole: a capital sigma that ends a word becomes the
  final sigma, anywhere else the small sigma. With the rule of the single letter
  capital sigma configured, the text of the two letters capital alpha, capital sigma,
  which contains the rule as it is written, is not matched.
\<close>

theorem final_sigma_counterexample:
  "configuredRules greekEnv = [Str capitalSigma]
   \<and> \<not> regexShaped (Str capitalSigma)
   \<and> capitalAlphaSigma = [CHR 0xCE, CHR 0x91] @ capitalSigma @ []
   \<and> toLowerCase greekEnv capitalSigma = [CHR 0xCF, CHR 0x83]
   \<and> toLowerCase greekEnv capitalAlphaSigma = [CHR 0xCE, CHR 0xB1, CHR 0xCF, CHR 0x82]
   \<and> \<not> fst (matchesRuleBased greekEnv (Some capitalAlphaSigma))"
  by code_simp

text \<open>
  C5, as the code has it. For every rule list and text: a text is matched when the
  lower-cased form of a configured literal rule occurs in the lower-cased text, so a
  text that contains the rule in any letter case is matched whenever lower-casing the
  text lower-cases that occurrence in its place; a rule shaped \<open>/.../\<close> is compiled
  as a case-insensitive expression and tested on the text; the result is true exactly
  when the text is not empty and some rule matches, so it is false when none does and
  when the text is empty or absent; a rule whose pattern does not compile is skipped
  with a warning and the scan goes on as if it were not there; and nothing after the
  first matching rule is evaluated (the result and the warnings are those of the list
  cut after that rule).
\<close>

theorem matchesRuleBased_spec:
  "(t \<noteq> [] \<and> r \<in> set (configuredRules env) \<and> \<not> regexShaped r \<and>
      sublist (toLowerCase env (String r)) (toLowerCase env t) \<longrightarrow>
      fst (matchesRuleBased env (Some t)))
   \<and> (t \<noteq> [] \<and> r \<in> set (configuredRules env) \<and> \<not> regexShaped r \<and> t = pre @ v @ post \<and>
      toLowerCase env v = toLowerCase env (String r) \<and>
      toLowerCase env t = toLowerCase env pre @ toLowerCase env v @ toLowerCase env post \<longrightarrow>
      fst (matchesRuleBased env (Some t)))
   \<and> (t \<noteq> [] \<and> r \<in> set (configuredRules env) \<and> regexShaped r \<and>
      RegExp_i env (slice_1_neg1 (String r)) = Some test \<and> test t \<longrightarrow>
      fst (matchesRuleBased env (Some t)))
   \<and> (fst (matchesRuleBased env (Some t)) \<longleftrightarrow>
        t \<noteq> [] \<and> (\<exists>q\<in>set (configuredRules env). ruleMatches env t q))
   \<and> \<not> fst (matchesRuleBased env None) \<and> \<not> fst (matchesRuleBased env (Some []))
   \<and> (regexShaped r \<and> RegExp_i env (slice_1_neg1 (String r)) = None \<longrightarrow>
        fst (matchesRuleBased (env\<lparr>moderationRules := Some (rs @ r # rs')\<rparr>) (Some t)) =
        fst (matchesRuleBased (env\<lparr>moderationRules := Some (rs @ rs')\<rparr>) (Some t))
        \<and> (t \<noteq> [] \<and> (\<forall>q\<in>set rs. \<not> ruleMatches env t q) \<longrightarrow>
             WarnInvalidRule r \<in>
               set (snd (matchesRuleBased (env\<lparr>moderationRules := Some (rs @ r # rs')\<rparr>) (Some t)))))
   \<and> (ruleMatches env t r \<longrightarrow>
        matchesRuleBased (env\<lparr>moderationRules := Some (rs @ r # rs')\<rparr>) (Some t) =
        matchesRuleBased (env\<lparr>moderationRules := Some (rs @ [r])\<rparr>) (Some t))"
proof -
  have iff: "fst (matchesRuleBased e (Some t)) \<longleftrightarrow>
      t \<noteq> [] \<and> (\<exists>q\<in>set (configuredRules e). ruleMatches e t q)" for e
    by (simp add: matchesRuleBased_def Let_def scanRules_fst tryRule_True_iff)
  have low: "ruleMatches env t r"
    if "\<not> regexShaped r" "sublist (toLowerCase env (String r)) (toLowerCase env t)"
    using that by (simp add: ruleMatches_def)
  have lit: "ruleMatches env t r"
    if "\<not> regexShaped r" "t = pre @ v @ post" "toLowerCase env v = toLowerCase env (String r)"
      "toLowerCase env t = toLowerCase env pre @ toLowerCase env v @ toLowerCase env post"
  proof -
    have "sublist (toLowerCase env v)
        (toLowerCase env pre @ toLowerCase env v @ toLowerCase env post)"
      by (rule sublist_appendI)
    with that show ?thesis
      by (simp add: ruleMatches_def)
  qed
  have rx: "ruleMatches env t r"
    if "regexShaped r" "RegExp_i env (slice_1_neg1 (String r)) = Some test" "test t"
    using that by (simp add: ruleMatches_def)
  have thr: "isl (tryRule env t l r)"
    if "regexShaped r" "RegExp_i env (slice_1_neg1 (String r)) = None" for l
    using that by (simp add: tryRule_def)
  have skip1: "fst (matchesRuleBased (env\<lparr>moderationRules := Some (rs @ r # rs')\<rparr>) (Some t)) =
        fst (matchesRuleBased (env\<lparr>moderationRules := Some (rs @ rs')\<rparr>) (Some t))"
    if "regexShaped r" "RegExp_i env (slice_1_neg1 (String r)) = None"
    using scanRules_skip [OF thr [OF that], where pre = rs and post = rs']
    by (simp add: matchesRuleBased_def Let_def configuredRules_def)
  have skip2: "WarnInvalidRule r \<in>
               set (snd (matchesRuleBased (env\<lparr>moderationRules := Some (rs @ r # rs')\<rparr>) (Some t)))"
    if "regexShaped r" "RegExp_i env (slice_1_neg1 (String r)) = None" "t \<noteq> []"
       "\<forall>q\<in>set rs. \<not> ruleMatches env t q"
  proof -
    have a: "takeWhile (\<lambda>q. tryRule env t (toLowerCase env t) q \<noteq> Inr True) (rs @ r # rs') =
          rs @ takeWhile (\<lambda>q. tryRule env t (toLowerCase env t) q \<noteq> Inr True) (r # rs')"
      using that(4) by (intro takeWhile_append2) (simp add: tryRule_True_iff)
    have b: "tryRule env t (toLowerCase env t) r \<noteq> Inr True"
      using thr [OF that(1,2), of "toLowerCase env t"] by auto
    show ?thesis
      using that(3) thr [OF that(1,2), of "toLowerCase env t"] b
      by (simp add: matchesRuleBased_def Let_def configuredRules_def scanRules_snd a)
  qed
  have short: "matchesRuleBased (env\<lparr>moderationRules := Some (rs @ r # rs')\<rparr>) (Some t) =
        matchesRuleBased (env\<lparr>moderationRules := Some (rs @ [r])\<rparr>) (Some t)"
    if "ruleMatches env t r"
    using scanRules_short [where env = env and t = t and l = "toLowerCase env t" and r = r and pre = rs and post = rs'] that
    by (simp add: matchesRuleBased_def Let_def configuredRules_def tryRule_True_iff)
  have none: "\<not> fst (matchesRuleBased env None)" "\<not> fst (matchesRuleBased env (Some []))"
    by (simp_all add: matchesRuleBased_def)
  show ?thesis
    using iff [of env] low lit rx skip1 skip2 short none by blast
qed


text \<open>
  The rules \<open>/[/\<close> (does not compile), \<open>spam\<close> and \<open>/free money/\<close> on four
  texts, and the rule \<open>ecole\<close>, with its accent, on that word in capitals.
\<close>

theorem matchesRuleBased_spec_witness:
  "fst (matchesRuleBased demoEnv (Some ''This is SPAM content''))
   \<and> fst (matchesRuleBased demoEnv (Some ''cheap spam''))
   \<and> fst (matchesRuleBased demoEnv (Some ''Free Money inside''))
   \<and> \<not> fst (matchesRuleBased demoEnv (Some ''hello''))
   \<and> WarnInvalidRule (Str ''/[/'') \<in> set (snd (matchesRuleBased demoEnv (Some ''hello'')))
   \<and> matchesRuleBased demoEnv (Some ''This is SPAM content'') =
       matchesRuleBased (demoEnv\<lparr>moderationRules := Some [Str ''/[/'', Str ''spam'']\<rparr>)
         (Some ''This is SPAM content'')
   \<and> fst (matchesRuleBased frenchEnv (Some capitalEcole))"
proof -
  let ?lit = "Str ''spam''" and ?rx = "Str ''/free money/''" and ?bad = "Str ''/[/''"
  have e: "demoEnv\<lparr>moderationRules := Some ([] @ ?bad # [?lit, ?rx])\<rparr> = demoEnv"
    "demoEnv\<lparr>moderationRules := Some [?bad, ?lit, ?rx]\<rparr> = demoEnv"
    by (simp_all add: demoEnv_def)
  have h1: "''This is SPAM content'' \<noteq> [] \<and> ?lit \<in> set (configuredRules demoEnv) \<and>
      \<not> regexShaped ?lit \<and> ''This is SPAM content'' = ''This is '' @ ''SPAM'' @ '' content'' \<and>
      toLowerCase demoEnv ''SPAM'' = toLowerCase demoEnv (String ?lit) \<and>
      toLowerCase demoEnv ''This is SPAM content'' =
        toLowerCase demoEnv ''This is '' @ toLowerCase demoEnv ''SPAM'' @
        toLowerCase demoEnv '' content''"
    by code_simp
  have h0: "''cheap spam'' \<noteq> [] \<and> ?lit \<in> set (configuredRules demoEnv) \<and> \<not> regexShaped ?lit \<and>
      sublist (toLowerCase demoEnv (String ?lit)) (toLowerCase demoEnv ''cheap spam'')"
    by code_simp
  have h2a: "''Free Money inside'' \<noteq> [] \<and> ?rx \<in> set (configuredRules demoEnv) \<and> regexShaped ?rx \<and>
      sublist (asciiLower ''free money'') (asciiLower ''Free Money inside'')"
    by code_simp
  have h2b: "RegExp_i demoEnv (slice_1_neg1 (String ?rx)) =
        Some (\<lambda>t. sublist (asciiLower ''free money'') (asciiLower t))"
    by (simp add: demoEnv_def demoRegExp_def slice_1_neg1_def)
  note h2 = h2a h2b
  have h3: "regexShaped ?bad \<and> RegExp_i demoEnv (slice_1_neg1 (String ?bad)) = None"
    by code_simp
  have h4: "''hello'' \<noteq> [] \<and> (\<forall>q\<in>set []. \<not> ruleMatches demoEnv ''hello'' q)"
    by simp
  have h5: "\<not> (\<exists>q\<in>set (configuredRules demoEnv). ruleMatches demoEnv ''hello'' q)"
    by code_simp
  have h6: "ruleMatches demoEnv ''This is SPAM content'' ?lit"
    by code_simp
  note i1 = matchesRuleBased_spec [where env = demoEnv and t = "''This is SPAM content''"
        and r = ?lit and pre = "''This is ''" and v = "''SPAM''" and post = "'' content''"
        and rs = "[?bad]" and rs' = "[?rx]"]
  note i2 = matchesRuleBased_spec [where env = demoEnv and t = "''Free Money inside''" and r = ?rx
        and test = "\<lambda>t. sublist (asciiLower ''free money'') (asciiLower t)"]
  note i3 = matchesRuleBased_spec [where env = demoEnv and t = "''hello''" and r = ?bad
        and rs = "[]" and rs' = "[?lit, ?rx]"]
  have h7: "capitalEcole \<noteq> [] \<and> Str smallEcole \<in> set (configuredRules frenchEnv) \<and>
      \<not> regexShaped (Str smallEcole) \<and>
      sublist (toLowerCase frenchEnv (String (Str smallEcole))) (toLowerCase frenchEnv capitalEcole)"
    by code_simp
  have c7: "fst (matchesRuleBased frenchEnv (Some capitalEcole))"
    using matchesRuleBased_spec [where env = frenchEnv and t = capitalEcole and r = "Str smallEcole",
        THEN conjunct1] h7
    by blast
  note i0 = matchesRuleBased_spec [where env = demoEnv and t = "''cheap spam''" and r = ?lit]
  have c1: "fst (matchesRuleBased demoEnv (Some ''This is SPAM content''))"
    using i1 [THEN conjunct2, THEN conjunct1] h1 by blast
  have c0: "fst (matchesRuleBased demoEnv (Some ''cheap spam''))"
    using i0 [THEN conjunct1] h0 by blast
  have c2: "fst (matchesRuleBased demoEnv (Some ''Free Money inside''))"
    using i2 h2a h2b by blast
  have c3: "\<not> fst (matchesRuleBased demoEnv (Some ''hello''))"
    using i3 h5 by blast
  have "WarnInvalidRule ?bad \<in> set (snd (matchesRuleBased
          (demoEnv\<lparr>moderationRules := Some ([] @ ?bad # [?lit, ?rx])\<rparr>) (Some ''hello'')))"
    using i3 h3 h4 by blast
  then have c4: "WarnInvalidRule ?bad \<in> set (snd (matchesRuleBased demoEnv (Some ''hello'')))"
    by (simp only: e)
  have "matchesRuleBased (demoEnv\<lparr>moderationRules := Some ([?bad] @ ?lit # [?rx])\<rparr>)
          (Some ''This is SPAM content'') =
        matchesRuleBased (demoEnv\<lparr>moderationRules := Some ([?bad] @ [?lit])\<rparr>)
          (Some ''This is SPAM content'')"
    using i1 h6 by blast
  then have c5: "matchesRuleBased demoEnv (Some ''This is SPAM content'') =
       matchesRuleBased (demoEnv\<lparr>moderationRules := Some [?bad, ?lit]\<rparr>)
         (Some ''This is SPAM content'')"
    by (simp add: e)
  show ?thesis
    using c1 c0 c2 c3 c4 c5 c7 by blast
qed

subsection \<open>The scorer\<close>














subsection \<open>The gate in \<open>createPost\<close> and \<open>addComment\<close>\<close>

lemma newEvents_append: "log w' = log w @ evs \<Longrightarrow> newEvents w w' = evs"
  by (simp add: newEvents_def)

lemma scanRules_events: "e \<in> set (snd (scanRules env t l rs)) \<Longrightarrow> matcherEvent e"
  by (induction rs) (auto split: sum.splits bool.splits)

lemma matchesRuleBased_events: "e \<in> set (snd (matchesRuleBased env x)) \<Longrightarrow> matcherEvent e"
  by (auto simp: matchesRuleBased_def Let_def dest: scanRules_events split: option.splits if_splits)

lemma matcher_not_scorer: "matcherEvent e \<Longrightarrow> \<not> scorerEvent e"
  by (cases e) simp_all

lemma matchesRuleBased_first: "\<exists>evs. snd (matchesRuleBased env x) = RuleCheck x # evs"
  by (simp add: matchesRuleBased_def Let_def split: option.splits)

lemma aiModerationCheck_first: "\<exists>evs. snd (aiModerationCheck env t) = AiCheck t # evs"
  by (auto simp: aiModerationCheck_def split: option.splits prod.splits sum.splits)

lemma unlinkUpload_log:
  "\<exists>evs. log (unlinkUpload env req w) = log w @ evs \<and> (\<forall>e\<in>set evs. \<not> scorerEvent e)"
  by (auto simp: unlinkUpload_def safeUnlink_def addLog_def split: option.splits)

lemma unlinkUpload_store [simp]:
  "posts (unlinkUpload env req w) = posts w" "comments (unlinkUpload env req w) = comments w"
  "pendingPosts (unlinkUpload env req w) = pendingPosts w"
  by (auto simp: unlinkUpload_def safeUnlink_def addLog_def split: option.splits)

lemma addLog_simps [simp]:
  "log (addLog evs w) = log w @ evs" "posts (addLog evs w) = posts w"
  "comments (addLog evs w) = comments w" "pendingPosts (addLog evs w) = pendingPosts w"
  "disk (addLog evs w) = disk w" "nextId (addLog evs w) = nextId w"
  "users (addLog evs w) = users w" "communities (addLog evs w) = communities w"
  by (simp_all add: addLog_def)

lemma createPost_rule:
  assumes "findCommunity (body_communityId req) (userId req) w \<noteq> None"
    and "fst (matchesRuleBased env (Some (contentOrEmpty (body_content req))))"
  shows "createPost env w req =
     (Response 403 (Message ''Post blocked by moderation (rule match)''),
      unlinkUpload env req
        (addLog (snd (matchesRuleBased env (Some (contentOrEmpty (body_content req))))) w))"
  using assms by (auto simp: createPost_def Let_def)

lemma createPost_flagged:
  assumes "findCommunity (body_communityId req) (userId req) w \<noteq> None"
    and "\<not> fst (matchesRuleBased env (Some (contentOrEmpty (body_content req))))"
    and "flagged (fst (aiModerationCheck env (contentOrEmpty (body_content req))))"
  shows "createPost env w req =
     (Response 403
        (MessageReason ''Post blocked by moderation (AI)''
           (reasonOrDefault (fst (aiModerationCheck env (contentOrEmpty (body_content req)))))),
      unlinkUpload env req
        (addLog (snd (aiModerationCheck env (contentOrEmpty (body_content req))))
           (addLog (snd (matchesRuleBased env (Some (contentOrEmpty (body_content req))))) w)))"
  using assms by (auto simp: createPost_def Let_def)

lemma findPostById_saved: "\<exists>q. findPostById (fst (savePost p w)) (snd (savePost p w)) = Some q"
proof -
  have "\<exists>x \<in> set (posts w @ [p\<lparr>post_id := nextId w\<rparr>]). post_id x = nextId w"
    by simp
  then have "find (\<lambda>x. post_id x = nextId w) (posts w @ [p\<lparr>post_id := nextId w\<rparr>]) \<noteq> None"
    unfolding find_None_iff by blast
  then show ?thesis
    by (simp add: findPostById_def savePost_def)
qed

lemma savePost_simps [simp]:
  "posts (snd (savePost p w)) = posts w @ [p\<lparr>post_id := nextId w\<rparr>]"
  "log (snd (savePost p w)) = log w @ [InsertPost (nextId w)]"
  "pendingPosts (snd (savePost p w)) = pendingPosts w"
  "comments (snd (savePost p w)) = comments w"
  by (simp_all add: savePost_def)

lemma createPost_accepted:
  assumes "findCommunity (body_communityId req) (userId req) w \<noteq> None"
    and "\<not> fst (matchesRuleBased env (Some (contentOrEmpty (body_content req))))"
    and "\<not> flagged (fst (aiModerationCheck env (contentOrEmpty (body_content req))))"
  shows "code (fst (createPost env w req)) = 200"
    and "posts (snd (createPost env w req)) =
       posts w @
       [\<lparr>post_id = nextId w, post_user = userId req, post_community = body_communityId req,
         post_content = body_content req, post_fileUrl = orNull (fileUrl req),
         post_fileType = orNull (fileType req), post_comments = []\<rparr>]"
    and "log (snd (createPost env w req)) =
       log w @ snd (matchesRuleBased env (Some (contentOrEmpty (body_content req)))) @
       snd (aiModerationCheck env (contentOrEmpty (body_content req))) @ [InsertPost (nextId w)]"
proof -
  let ?w2 = "addLog (snd (aiModerationCheck env (contentOrEmpty (body_content req))))
           (addLog (snd (matchesRuleBased env (Some (contentOrEmpty (body_content req))))) w)"
  let ?np = "\<lparr>post_id = 0, post_user = userId req, post_community = body_communityId req,
         post_content = body_content req, post_fileUrl = orNull (fileUrl req),
         post_fileType = orNull (fileType req), post_comments = []\<rparr>"
  obtain q where q: "findPostById (fst (savePost ?np ?w2)) (snd (savePost ?np ?w2)) = Some q"
    using findPostById_saved by blast
  obtain c where c: "findCommunity (body_communityId req) (userId req) w = Some c"
    using assms(1) by blast
  have eq: "createPost env w req = (Response 200 (PostJson q), snd (savePost ?np ?w2))"
    using assms(2,3) q c by (simp add: createPost_def Let_def)
  show "code (fst (createPost env w req)) = 200"
    by (simp add: eq)
  show "posts (snd (createPost env w req)) =
       posts w @
       [\<lparr>post_id = nextId w, post_user = userId req, post_community = body_communityId req,
         post_content = body_content req, post_fileUrl = orNull (fileUrl req),
         post_fileType = orNull (fileType req), post_comments = []\<rparr>]"
    by (simp add: eq)
  show "log (snd (createPost env w req)) =
       log w @ snd (matchesRuleBased env (Some (contentOrEmpty (body_content req)))) @
       snd (aiModerationCheck env (contentOrEmpty (body_content req))) @ [InsertPost (nextId w)]"
    by (simp add: eq)
qed

lemma addComment_rule:
  assumes "fst (matchesRuleBased env (Some (contentOrEmpty (body_content req))))"
  shows "addComment env w req =
     (Response 403 (Message ''Comment blocked by moderation (rule match)''),
      addLog (snd (matchesRuleBased env (Some (contentOrEmpty (body_content req))))) w)"
  using assms by (auto simp: addComment_def Let_def)

lemma addComment_flagged:
  assumes "\<not> fst (matchesRuleBased env (Some (contentOrEmpty (body_content req))))"
    and "flagged (fst (aiModerationCheck env (contentOrEmpty (body_content req))))"
  shows "addComment env w req =
     (Response 403
        (MessageReason ''Comment blocked by moderation (AI)''
           (reasonOrDefault (fst (aiModerationCheck env (contentOrEmpty (body_content req)))))),
      addLog (snd (aiModerationCheck env (contentOrEmpty (body_content req))))
        (addLog (snd (matchesRuleBased env (Some (contentOrEmpty (body_content req))))) w))"
  using assms by (auto simp: addComment_def Let_def)

lemma addComment_accepted:
  assumes "\<not> fst (matchesRuleBased env (Some (contentOrEmpty (body_content req))))"
    and "\<not> flagged (fst (aiModerationCheck env (contentOrEmpty (body_content req))))"
  shows "fst (addComment env w req) = Response 200 (Message ''Comment added successfully'')"
    and "comments (snd (addComment env w req)) =
       comments w @
       [\<lparr>comment_id = nextId w, comment_user = userId req, comment_post = body_postId req,
         comment_content = body_content req\<rparr>]"
    and "log (snd (addComment env w req)) =
       log w @ snd (matchesRuleBased env (Some (contentOrEmpty (body_content req)))) @
       snd (aiModerationCheck env (contentOrEmpty (body_content req))) @
       [InsertComment (nextId w), AddToSetComments (body_postId req) (nextId w)]"
  using assms
  by (auto simp: addComment_def Let_def saveComment_def addToSetComments_def)


lemma sublist_rule_match:
  "sublist ''rule match'' ''Post blocked by moderation (rule match)''"
  "sublist ''rule match'' ''Comment blocked by moderation (rule match)''"
  by code_simp+

lemma gate_addComment:
  assumes "t = contentOrEmpty (body_content req)"
    and "addComment env w req = (rc, wc)"
  shows
    "(\<exists>evs. newEvents w wc = RuleCheck (Some t) # evs)
     \<and> (fst (matchesRuleBased env (Some t)) \<longrightarrow>
          rc = Response 403 (Message ''Comment blocked by moderation (rule match)'') \<and>
          (\<forall>e\<in>set (newEvents w wc). \<not> scorerEvent e) \<and>
          comments wc = comments w \<and> posts wc = posts w)
     \<and> (\<not> fst (matchesRuleBased env (Some t)) \<longrightarrow>
          (\<exists>evs. newEvents w wc =
             snd (matchesRuleBased env (Some t)) @ snd (aiModerationCheck env t) @ evs) \<and>
          (if flagged (fst (aiModerationCheck env t)) then
             rc = Response 403
                    (MessageReason ''Comment blocked by moderation (AI)''
                       (reasonOrDefault (fst (aiModerationCheck env t)))) \<and>
             comments wc = comments w \<and> posts wc = posts w
           else
             rc = Response 200 (Message ''Comment added successfully'') \<and>
             comments wc =
               comments w @
               [\<lparr>comment_id = nextId w, comment_user = userId req,
                 comment_post = body_postId req, comment_content = body_content req\<rparr>]))"
proof -
  let ?rb = "matchesRuleBased env (Some t)" and ?ai = "aiModerationCheck env t"
  note t = assms(1)
  have wc: "wc = snd (addComment env w req)" and rc: "rc = fst (addComment env w req)"
    using assms(2) by simp_all
  obtain revs where revs: "snd ?rb = RuleCheck (Some t) # revs"
    using matchesRuleBased_first by blast
  have rbev: "\<forall>e\<in>set (snd ?rb). \<not> scorerEvent e"
    using matchesRuleBased_events matcher_not_scorer by blast
  have match: "rc = Response 403 (Message ''Comment blocked by moderation (rule match)'') \<and>
          (\<forall>e\<in>set (newEvents w wc). \<not> scorerEvent e) \<and>
          comments wc = comments w \<and> posts wc = posts w \<and> newEvents w wc = snd ?rb"
    if m: "fst ?rb"
  proof -
    have c: "addComment env w req =
        (Response 403 (Message ''Comment blocked by moderation (rule match)''),
         addLog (snd ?rb) w)"
      using addComment_rule m unfolding t by simp
    have nc: "newEvents w wc = snd ?rb"
      unfolding wc c by (simp add: newEvents_append)
    show ?thesis
      using rbev nc unfolding rc wc c by auto
  qed
  have nomatch: "newEvents w wc = snd ?rb @ snd ?ai @
             (if flagged (fst ?ai) then []
              else [InsertComment (nextId w), AddToSetComments (body_postId req) (nextId w)]) \<and>
          (if flagged (fst ?ai) then
             rc = Response 403
                    (MessageReason ''Comment blocked by moderation (AI)'' (reasonOrDefault (fst ?ai))) \<and>
             comments wc = comments w \<and> posts wc = posts w
           else
             rc = Response 200 (Message ''Comment added successfully'') \<and>
             comments wc =
               comments w @
               [\<lparr>comment_id = nextId w, comment_user = userId req,
                 comment_post = body_postId req, comment_content = body_content req\<rparr>])"
    if m: "\<not> fst ?rb"
  proof (cases "flagged (fst ?ai)")
    case True
    have c: "addComment env w req =
        (Response 403 (MessageReason ''Comment blocked by moderation (AI)'' (reasonOrDefault (fst ?ai))),
         addLog (snd ?ai) (addLog (snd ?rb) w))"
      using addComment_flagged m True unfolding t by simp
    have nc: "newEvents w wc = snd ?rb @ snd ?ai"
      unfolding wc c by (simp add: newEvents_append)
    show ?thesis
      using True nc unfolding rc wc c by simp
  next
    case False
    note c = addComment_accepted [of env req w]
    have nc: "newEvents w wc = snd ?rb @ snd ?ai @
        [InsertComment (nextId w), AddToSetComments (body_postId req) (nextId w)]"
      unfolding wc using c(3) m False unfolding t by (simp add: newEvents_append)
    show ?thesis
      using False nc c(1,2) m unfolding rc wc t by simp
  qed
  have first: "\<exists>evs. newEvents w wc = RuleCheck (Some t) # evs"
  proof (cases "fst ?rb")
    case True
    then show ?thesis using match revs by simp
  next
    case False
    then show ?thesis using nomatch revs by simp
  qed
  have order: "\<exists>evs. newEvents w wc = snd ?rb @ snd ?ai @ evs" if "\<not> fst ?rb"
    using nomatch [OF that] by blast
  show ?thesis
    using first match nomatch order by blast
qed

lemma gate_createPost:
  assumes "t = contentOrEmpty (body_content req)"
    and "findCommunity (body_communityId req) (userId req) w \<noteq> None"
    and "createPost env w req = (rp, wp)"
  shows
    "(\<exists>evs. newEvents w wp = RuleCheck (Some t) # evs)
     \<and> (fst (matchesRuleBased env (Some t)) \<longrightarrow>
          rp = Response 403 (Message ''Post blocked by moderation (rule match)'') \<and>
          (\<forall>e\<in>set (newEvents w wp). \<not> scorerEvent e) \<and>
          posts wp = posts w \<and> comments wp = comments w)
     \<and> (\<not> fst (matchesRuleBased env (Some t)) \<longrightarrow>
          (\<exists>evs. newEvents w wp =
             snd (matchesRuleBased env (Some t)) @ snd (aiModerationCheck env t) @ evs) \<and>
          (if flagged (fst (aiModerationCheck env t)) then
             rp = Response 403
                    (MessageReason ''Post blocked by moderation (AI)''
                       (reasonOrDefault (fst (aiModerationCheck env t)))) \<and>
             posts wp = posts w \<and> comments wp = comments w
           else
             code rp = 200 \<and>
             posts wp =
               posts w @
               [\<lparr>post_id = nextId w, post_user = userId req,
                 post_community = body_communityId req, post_content = body_content req,
                 post_fileUrl = orNull (fileUrl req), post_fileType = orNull (fileType req),
                 post_comments = []\<rparr>]))"
proof -
  let ?rb = "matchesRuleBased env (Some t)" and ?ai = "aiModerationCheck env t"
  note t = assms(1) and member = assms(2)
  have wp: "wp = snd (createPost env w req)" and rp: "rp = fst (createPost env w req)"
    using assms(3) by simp_all
  obtain revs where revs: "snd ?rb = RuleCheck (Some t) # revs"
    using matchesRuleBased_first by blast
  obtain uevs where uevs: "log (unlinkUpload env req (addLog (snd ?rb) w)) = log w @ snd ?rb @ uevs"
      "\<forall>e\<in>set uevs. \<not> scorerEvent e"
    using unlinkUpload_log [of env req "addLog (snd ?rb) w"] by auto
  obtain uevs' where uevs':
      "log (unlinkUpload env req (addLog (snd ?ai) (addLog (snd ?rb) w))) =
         log w @ snd ?rb @ snd ?ai @ uevs'"
    using unlinkUpload_log [of env req "addLog (snd ?ai) (addLog (snd ?rb) w)"] by auto
  have rbev: "\<forall>e\<in>set (snd ?rb). \<not> scorerEvent e"
    using matchesRuleBased_events matcher_not_scorer by blast
  have match: "rp = Response 403 (Message ''Post blocked by moderation (rule match)'') \<and>
          (\<forall>e\<in>set (newEvents w wp). \<not> scorerEvent e) \<and>
          posts wp = posts w \<and> comments wp = comments w \<and> newEvents w wp = snd ?rb @ uevs"
    if m: "fst ?rb"
  proof -
    have p: "createPost env w req =
        (Response 403 (Message ''Post blocked by moderation (rule match)''),
         unlinkUpload env req (addLog (snd ?rb) w))"
      using createPost_rule [OF member] m unfolding t by simp
    have np: "newEvents w wp = snd ?rb @ uevs"
      unfolding wp p using uevs(1) by (simp add: newEvents_append)
    show ?thesis
      using rbev uevs(2) np unfolding rp wp p by auto
  qed
  have nomatch: "newEvents w wp = snd ?rb @ snd ?ai @
             (if flagged (fst ?ai) then uevs' else [InsertPost (nextId w)]) \<and>
          (if flagged (fst ?ai) then
             rp = Response 403
                    (MessageReason ''Post blocked by moderation (AI)'' (reasonOrDefault (fst ?ai))) \<and>
             posts wp = posts w \<and> comments wp = comments w
           else
             code rp = 200 \<and>
             posts wp =
               posts w @
               [\<lparr>post_id = nextId w, post_user = userId req,
                 post_community = body_communityId req, post_content = body_content req,
                 post_fileUrl = orNull (fileUrl req), post_fileType = orNull (fileType req),
                 post_comments = []\<rparr>])"
    if m: "\<not> fst ?rb"
  proof (cases "flagged (fst ?ai)")
    case True
    have p: "createPost env w req =
        (Response 403 (MessageReason ''Post blocked by moderation (AI)'' (reasonOrDefault (fst ?ai))),
         unlinkUpload env req (addLog (snd ?ai) (addLog (snd ?rb) w)))"
      using createPost_flagged [OF member] m True unfolding t by simp
    have np: "newEvents w wp = snd ?rb @ snd ?ai @ uevs'"
      unfolding wp p using uevs' by (simp add: newEvents_append)
    show ?thesis
      using True np unfolding rp wp p by simp
  next
    case False
    note p = createPost_accepted [OF member, of env]
    have np: "newEvents w wp = snd ?rb @ snd ?ai @ [InsertPost (nextId w)]"
      unfolding wp using p(3) m False unfolding t by (simp add: newEvents_append)
    show ?thesis
      using False np p(1,2) m unfolding rp wp t by simp
  qed
  have first: "\<exists>evs. newEvents w wp = RuleCheck (Some t) # evs"
  proof (cases "fst ?rb")
    case True
    then show ?thesis using match revs by simp
  next
    case False
    then show ?thesis using nomatch revs by simp
  qed
  have order: "\<exists>evs. newEvents w wp = snd ?rb @ snd ?ai @ evs" if "\<not> fst ?rb"
    using nomatch [OF that] by blast
  show ?thesis
    using first match nomatch order by blast
qed

text \<open>
  C1. On the content-creation path (\<open>addComment\<close>, and \<open>createPost\<close> once the
  membership check has passed) the first thing the handler does is the rule check of
  the text. If a rule matches, the request is refused with status 403 and a message
  that contains \<open>rule match\<close>, nothing is stored, and the scorer is not called: no
  call of \<open>aiModerationCheck\<close> and no request to the service is among the events of
  the handler. If no rule matches, the scorer is called next, and its verdict decides:
  flagged, the request is refused with status 403 and the scorer's reason; not
  flagged, the post or comment is stored and the status is 200.
\<close>

theorem moderation_gate:
  assumes "t = contentOrEmpty (body_content req)"
    and "createPost env w req = (rp, wp)"
    and "addComment env w req = (rc, wc)"
  shows
    "((\<exists>evs. newEvents w wc = RuleCheck (Some t) # evs)
      \<and> (fst (matchesRuleBased env (Some t)) \<longrightarrow>
           rc = Response 403 (Message ''Comment blocked by moderation (rule match)'') \<and>
           (\<forall>e\<in>set (newEvents w wc). \<not> scorerEvent e) \<and>
           comments wc = comments w \<and> posts wc = posts w)
      \<and> (\<not> fst (matchesRuleBased env (Some t)) \<longrightarrow>
           (\<exists>evs. newEvents w wc =
              snd (matchesRuleBased env (Some t)) @ snd (aiModerationCheck env t) @ evs) \<and>
           (if flagged (fst (aiModerationCheck env t)) then
              rc = Response 403
                     (MessageReason ''Comment blocked by moderation (AI)''
                        (reasonOrDefault (fst (aiModerationCheck env t)))) \<and>
              comments wc = comments w \<and> posts wc = posts w
            else
              rc = Response 200 (Message ''Comment added successfully'') \<and>
              comments wc =
                comments w @
                [\<lparr>comment_id = nextId w, comment_user = userId req,
                  comment_post = body_postId req, comment_content = body_content req\<rparr>])))
     \<and> (findCommunity (body_communityId req) (userId req) w \<noteq> None \<longrightarrow>
          (\<exists>evs. newEvents w wp = RuleCheck (Some t) # evs)
          \<and> (fst (matchesRuleBased env (Some t)) \<longrightarrow>
               rp = Response 403 (Message ''Post blocked by moderation (rule match)'') \<and>
               (\<forall>e\<in>set (newEvents w wp). \<not> scorerEvent e) \<and>
               posts wp = posts w \<and> comments wp = comments w)
          \<and> (\<not> fst (matchesRuleBased env (Some t)) \<longrightarrow>
               (\<exists>evs. newEvents w wp =
                  snd (matchesRuleBased env (Some t)) @ snd (aiModerationCheck env t) @ evs) \<and>
               (if flagged (fst (aiModerationCheck env t)) then
                  rp = Response 403
                         (MessageReason ''Post blocked by moderation (AI)''
                            (reasonOrDefault (fst (aiModerationCheck env t)))) \<and>
                  posts wp = posts w \<and> comments wp = comments w
                else
                  code rp = 200 \<and>
                  posts wp =
                    posts w @
                    [\<lparr>post_id = nextId w, post_user = userId req,
                      post_community = body_communityId req, post_content = body_content req,
                      post_fileUrl = orNull (fileUrl req), post_fileType = orNull (fileType req),
                      post_comments = []\<rparr>])))
     \<and> (\<exists>evs. snd (aiModerationCheck env t) = AiCheck t # evs)
     \<and> sublist ''rule match'' ''Post blocked by moderation (rule match)''
     \<and> sublist ''rule match'' ''Comment blocked by moderation (rule match)''"
proof (intro conjI impI)
  show "sublist ''rule match'' ''Post blocked by moderation (rule match)''"
    "sublist ''rule match'' ''Comment blocked by moderation (rule match)''"
    by (rule sublist_rule_match)+
  show "\<exists>evs. snd (aiModerationCheck env t) = AiCheck t # evs"
    by (rule aiModerationCheck_first)
qed (use gate_addComment [OF assms(1,3)] gate_createPost [OF assms(1) _ assms(2)] in blast)+

text \<open>
  A member posts and comments three texts: one that a rule matches, one that the
  scorer flags, one that passes.
\<close>

theorem moderation_gate_witness:
  "fst (createPost demoEnv demoWorld demoRequest) =
     Response 403 (Message ''Post blocked by moderation (rule match)'')
   \<and> fst (addComment demoEnv demoWorld demoRequest) =
     Response 403 (Message ''Comment blocked by moderation (rule match)'')
   \<and> AiCheck ''This is SPAM content'' \<notin>
       set (newEvents demoWorld (snd (createPost demoEnv demoWorld demoRequest)))
   \<and> AiCheck ''This is SPAM content'' \<notin>
       set (newEvents demoWorld (snd (addComment demoEnv demoWorld demoRequest)))
   \<and> fst (createPost demoEnv demoWorld (demoRequest\<lparr>body_content := Some ''hello''\<rparr>)) =
     Response 403 (MessageReason ''Post blocked by moderation (AI)'' ''TOXICITY score 0.90 >= 0.85'')
   \<and> fst (addComment demoEnv demoWorld (demoRequest\<lparr>body_content := Some ''hello''\<rparr>)) =
     Response 403 (MessageReason ''Comment blocked by moderation (AI)'' ''TOXICITY score 0.90 >= 0.85'')
   \<and> code (fst (createPost demoEnv demoWorld (demoRequest\<lparr>body_content := Some ''mild''\<rparr>))) = 200
   \<and> fst (addComment demoEnv demoWorld (demoRequest\<lparr>body_content := Some ''mild''\<rparr>)) =
     Response 200 (Message ''Comment added successfully'')"
proof -
  let ?r2 = "demoRequest\<lparr>body_content := Some ''hello''\<rparr>"
  let ?r3 = "demoRequest\<lparr>body_content := Some ''mild''\<rparr>"
  have t: "''This is SPAM content'' = contentOrEmpty (body_content demoRequest)"
    "''hello'' = contentOrEmpty (body_content ?r2)" "''mild'' = contentOrEmpty (body_content ?r3)"
    by (simp_all add: demoRequest_def contentOrEmpty_def)
  have member: "findCommunity (body_communityId demoRequest) (userId demoRequest) demoWorld \<noteq> None"
    "findCommunity (body_communityId ?r2) (userId ?r2) demoWorld \<noteq> None"
    "findCommunity (body_communityId ?r3) (userId ?r3) demoWorld \<noteq> None"
    by (simp_all add: demoRequest_def demoWorld_def findCommunity_def)
  have m: "fst (matchesRuleBased demoEnv (Some ''This is SPAM content''))"
    "\<not> fst (matchesRuleBased demoEnv (Some ''hello''))"
    "\<not> fst (matchesRuleBased demoEnv (Some ''mild''))"
    by code_simp+
  have f: "flagged (fst (aiModerationCheck demoEnv ''hello''))"
    "\<not> flagged (fst (aiModerationCheck demoEnv ''mild''))"
    by code_simp+
  have r: "reasonOrDefault (fst (aiModerationCheck demoEnv ''hello'')) = ''TOXICITY score 0.90 >= 0.85''"
    by code_simp
  note i1 = moderation_gate [where env = demoEnv and w = demoWorld and req = demoRequest,
      OF t(1) prod.collapse [symmetric] prod.collapse [symmetric]]
  note i2 = moderation_gate [where env = demoEnv and w = demoWorld and req = ?r2,
      OF t(2) prod.collapse [symmetric] prod.collapse [symmetric]]
  note i3 = moderation_gate [where env = demoEnv and w = demoWorld and req = ?r3,
      OF t(3) prod.collapse [symmetric] prod.collapse [symmetric]]
  note c1 = i1 [THEN conjunct1, THEN conjunct2, THEN conjunct1, THEN mp, OF m(1)]
  note p1 = i1 [THEN conjunct2, THEN conjunct1, THEN mp, OF member(1),
      THEN conjunct2, THEN conjunct1, THEN mp, OF m(1)]
  note c2 = i2 [THEN conjunct1, THEN conjunct2, THEN conjunct2, THEN mp, OF m(2), THEN conjunct2]
  note p2 = i2 [THEN conjunct2, THEN conjunct1, THEN mp, OF member(2),
      THEN conjunct2, THEN conjunct2, THEN mp, OF m(2), THEN conjunct2]
  note c3 = i3 [THEN conjunct1, THEN conjunct2, THEN conjunct2, THEN mp, OF m(3), THEN conjunct2]
  note p3 = i3 [THEN conjunct2, THEN conjunct1, THEN mp, OF member(3),
      THEN conjunct2, THEN conjunct2, THEN mp, OF m(3), THEN conjunct2]
  have a: "fst (createPost demoEnv demoWorld demoRequest) =
        Response 403 (Message ''Post blocked by moderation (rule match)'')"
    "fst (addComment demoEnv demoWorld demoRequest) =
        Response 403 (Message ''Comment blocked by moderation (rule match)'')"
    using p1 c1 by blast+
  have a': "AiCheck ''This is SPAM content'' \<notin>
       set (newEvents demoWorld (snd (createPost demoEnv demoWorld demoRequest)))"
    "AiCheck ''This is SPAM content'' \<notin>
       set (newEvents demoWorld (snd (addComment demoEnv demoWorld demoRequest)))"
    using p1 c1 by auto
  have b: "fst (createPost demoEnv demoWorld ?r2) =
        Response 403 (MessageReason ''Post blocked by moderation (AI)'' ''TOXICITY score 0.90 >= 0.85'')"
      "fst (addComment demoEnv demoWorld ?r2) =
        Response 403 (MessageReason ''Comment blocked by moderation (AI)'' ''TOXICITY score 0.90 >= 0.85'')"
    using p2 c2 f(1) by (simp_all add: r)
  have c: "code (fst (createPost demoEnv demoWorld ?r3)) = 200"
      "fst (addComment demoEnv demoWorld ?r3) = Response 200 (Message ''Comment added successfully'')"
    using p3 c3 f(2) by simp_all
  show ?thesis
    by (intro conjI a(1,2) a' b c)
qed

subsection \<open>Rollback of the upload\<close>

lemma tryRule_unlinkFails [simp]: "tryRule (env\<lparr>unlinkFails := u\<rparr>) t l r = tryRule env t l r"
  by (simp add: tryRule_def)

lemma scanRules_unlinkFails [simp]:
  "scanRules (env\<lparr>unlinkFails := u\<rparr>) t l rs = scanRules env t l rs"
  by (induction rs) (simp_all split: sum.splits bool.splits)

lemma matchesRuleBased_unlinkFails [simp]:
  "matchesRuleBased (env\<lparr>unlinkFails := u\<rparr>) x = matchesRuleBased env x"
  by (simp add: matchesRuleBased_def configuredRules_def Let_def split: option.splits)

lemma toFixed2_unlinkFails [simp]: "toFixed2 (env\<lparr>unlinkFails := u\<rparr>) x = toFixed2 env x"
  by (cases x) (simp_all add: toFixed2_def)

lemma scoreLoop_unlinkFails [simp]:
  "scoreLoop (env\<lparr>unlinkFails := u\<rparr>) j m ks = scoreLoop env j m ks"
  by (induction ks) (simp_all add: reasonText_def Let_def split: option.splits)

lemma tryScore_unlinkFails [simp]: "tryScore (env\<lparr>unlinkFails := u\<rparr>) k t = tryScore env k t"
  by (simp add: tryScore_def Let_def split: fetch_result.splits option.splits)

lemma aiModerationCheck_unlinkFails [simp]:
  "aiModerationCheck (env\<lparr>unlinkFails := u\<rparr>) t = aiModerationCheck env t"
  by (simp add: aiModerationCheck_def split: option.splits)

lemma findCommunity_disk [simp]: "findCommunity c u (w\<lparr>disk := d\<rparr>) = findCommunity c u w"
  by (simp add: findCommunity_def)

lemma aiModerationCheck_events: "e \<in> set (snd (aiModerationCheck env t)) \<Longrightarrow> scorerEvent e"
  by (auto simp: aiModerationCheck_def tryScore_def Let_def
      split: option.splits if_splits fetch_result.splits sum.splits)

lemma createPost_refused:
  assumes "findCommunity (body_communityId req) (userId req) w \<noteq> None"
    and "fst (matchesRuleBased env (Some (contentOrEmpty (body_content req)))) \<or>
         flagged (fst (aiModerationCheck env (contentOrEmpty (body_content req))))"
  shows "\<exists>b evs. createPost env w req = (Response 403 b, unlinkUpload env req (addLog evs w)) \<and>
           (\<forall>u d. fst (createPost (env\<lparr>unlinkFails := u\<rparr>) (w\<lparr>disk := d\<rparr>) req) = Response 403 b) \<and>
           (\<forall>e\<in>set evs. matcherEvent e \<or> scorerEvent e)"
proof (cases "fst (matchesRuleBased env (Some (contentOrEmpty (body_content req))))")
  case True
  have "fst (createPost (env\<lparr>unlinkFails := u\<rparr>) (w\<lparr>disk := d\<rparr>) req) =
      Response 403 (Message ''Post blocked by moderation (rule match)'')" for u d
    using createPost_rule [of req "w\<lparr>disk := d\<rparr>" "env\<lparr>unlinkFails := u\<rparr>"] assms(1) True
    by simp
  then show ?thesis
    using createPost_rule [OF assms(1) True] matchesRuleBased_events by blast
next
  case False
  then have fl: "flagged (fst (aiModerationCheck env (contentOrEmpty (body_content req))))"
    using assms(2) by blast
  have "fst (createPost (env\<lparr>unlinkFails := u\<rparr>) (w\<lparr>disk := d\<rparr>) req) =
      Response 403 (MessageReason ''Post blocked by moderation (AI)''
           (reasonOrDefault (fst (aiModerationCheck env (contentOrEmpty (body_content req))))))" for u d
    using createPost_flagged [of req "w\<lparr>disk := d\<rparr>" "env\<lparr>unlinkFails := u\<rparr>"] assms(1) False fl
    by simp
  moreover have "createPost env w req =
     (Response 403
        (MessageReason ''Post blocked by moderation (AI)''
           (reasonOrDefault (fst (aiModerationCheck env (contentOrEmpty (body_content req)))))),
      unlinkUpload env req
        (addLog (snd (matchesRuleBased env (Some (contentOrEmpty (body_content req)))) @
                 snd (aiModerationCheck env (contentOrEmpty (body_content req)))) w))"
    using createPost_flagged [OF assms(1) False fl] by (simp add: addLog_def)
  moreover have "\<forall>e\<in>set (snd (matchesRuleBased env (Some (contentOrEmpty (body_content req)))) @
                 snd (aiModerationCheck env (contentOrEmpty (body_content req)))).
       matcherEvent e \<or> scorerEvent e"
    using matchesRuleBased_events aiModerationCheck_events by auto
  ultimately show ?thesis
    by blast
qed

lemma unlinkUpload_effect:
  assumes "req_file req = Some f" and "path = userFilesDir env @ ''/'' @ f"
    and "\<forall>e\<in>set evs. matcherEvent e \<or> scorerEvent e"
  shows "Unlink path \<in> set (newEvents w (unlinkUpload env req (addLog evs w)))"
    and "path \<in> set (disk w) \<and> \<not> unlinkFails env path \<longrightarrow>
         path \<notin> set (disk (unlinkUpload env req (addLog evs w))) \<and>
         ErrorUnlinkFailed path \<notin> set (newEvents w (unlinkUpload env req (addLog evs w)))"
    and "path \<notin> set (disk w) \<or> unlinkFails env path \<longrightarrow>
         ErrorUnlinkFailed path \<in> set (newEvents w (unlinkUpload env req (addLog evs w))) \<and>
         disk (unlinkUpload env req (addLog evs w)) = disk w"
    and "set (disk (unlinkUpload env req (addLog evs w))) \<subseteq> set (disk w)"
  using assms
  by (auto simp: unlinkUpload_def safeUnlink_def newEvents_def addLog_def)

text \<open>
  C9. In \<open>createPost\<close>, when the verdict is flagged (a rule matches, or the scorer
  flags the text) and a file came with the request, the handler calls \<open>fs.unlink\<close> on
  the uploaded file: if the file is on disk and the deletion succeeds the file is gone
  and no error is logged; if the deletion fails the error is logged and nothing else
  changes. Whatever the deletion does, the response is the same 403 refusal.
\<close>

theorem createPost_rollback:
  assumes "t = contentOrEmpty (body_content req)"
    and "findCommunity (body_communityId req) (userId req) w \<noteq> None"
    and "fst (matchesRuleBased env (Some t)) \<or> flagged (fst (aiModerationCheck env t))"
    and "req_file req = Some f"
    and "path = userFilesDir env @ ''/'' @ f"
    and "createPost env w req = (r, w')"
  shows
    "code r = 403
     \<and> Unlink path \<in> set (newEvents w w')
     \<and> (path \<in> set (disk w) \<and> \<not> unlinkFails env path \<longrightarrow>
          path \<notin> set (disk w') \<and> ErrorUnlinkFailed path \<notin> set (newEvents w w'))
     \<and> (path \<notin> set (disk w) \<or> unlinkFails env path \<longrightarrow>
          ErrorUnlinkFailed path \<in> set (newEvents w w') \<and> disk w' = disk w)
     \<and> (\<forall>u d. fst (createPost (env\<lparr>unlinkFails := u\<rparr>) (w\<lparr>disk := d\<rparr>) req) = r)
     \<and> posts w' = posts w"
proof -
  obtain b evs where c: "createPost env w req = (Response 403 b, unlinkUpload env req (addLog evs w))"
    and ind: "\<forall>u d. fst (createPost (env\<lparr>unlinkFails := u\<rparr>) (w\<lparr>disk := d\<rparr>) req) = Response 403 b"
    and evs: "\<forall>e\<in>set evs. matcherEvent e \<or> scorerEvent e"
    using createPost_refused [OF assms(2)] assms(3) unfolding assms(1) by blast
  have r: "r = Response 403 b" and w': "w' = unlinkUpload env req (addLog evs w)"
    using c assms(6) by simp_all
  show ?thesis
    using unlinkUpload_effect [OF assms(4,5) evs, of w] ind
    unfolding r w' by simp
qed


text \<open>
  The upload \<open>cat.png\<close> is on disk. A post that a rule matches: the file is deleted.
  A post that the scorer flags, with a file system that refuses the deletion: the
  error is logged, the disk is as before, and the response is the one of a working
  file system.
\<close>

theorem createPost_rollback_witness:
  "code (fst (createPost demoEnv demoWorld demoRequest)) = 403
   \<and> Unlink ''assets/userFiles/cat.png'' \<in>
       set (newEvents demoWorld (snd (createPost demoEnv demoWorld demoRequest)))
   \<and> ''assets/userFiles/cat.png'' \<notin> set (disk (snd (createPost demoEnv demoWorld demoRequest)))
   \<and> ErrorUnlinkFailed ''assets/userFiles/cat.png'' \<in>
       set (newEvents demoWorld
         (snd (createPost (demoEnv\<lparr>unlinkFails := \<lambda>p. True\<rparr>) demoWorld
            (demoRequest\<lparr>body_content := Some ''hello''\<rparr>))))
   \<and> disk (snd (createPost (demoEnv\<lparr>unlinkFails := \<lambda>p. True\<rparr>) demoWorld
         (demoRequest\<lparr>body_content := Some ''hello''\<rparr>))) = disk demoWorld
   \<and> fst (createPost demoEnv demoWorld (demoRequest\<lparr>body_content := Some ''hello''\<rparr>)) =
     fst (createPost (demoEnv\<lparr>unlinkFails := \<lambda>p. True\<rparr>) demoWorld
        (demoRequest\<lparr>body_content := Some ''hello''\<rparr>))"
proof -
  let ?r2 = "demoRequest\<lparr>body_content := Some ''hello''\<rparr>"
  let ?e2 = "demoEnv\<lparr>unlinkFails := \<lambda>p. True\<rparr>"
  let ?path = "''assets/userFiles/cat.png''"
  have t: "''This is SPAM content'' = contentOrEmpty (body_content demoRequest)"
    "''hello'' = contentOrEmpty (body_content ?r2)"
    by (simp_all add: demoRequest_def contentOrEmpty_def)
  have member: "findCommunity (body_communityId demoRequest) (userId demoRequest) demoWorld \<noteq> None"
    "findCommunity (body_communityId ?r2) (userId ?r2) demoWorld \<noteq> None"
    by (simp_all add: demoRequest_def demoWorld_def findCommunity_def)
  have v1: "fst (matchesRuleBased demoEnv (Some ''This is SPAM content'')) \<or>
      flagged (fst (aiModerationCheck demoEnv ''This is SPAM content''))"
    by code_simp
  have "flagged (fst (aiModerationCheck demoEnv ''hello''))"
    by code_simp
  then have v2: "fst (matchesRuleBased ?e2 (Some ''hello'')) \<or> flagged (fst (aiModerationCheck ?e2 ''hello''))"
    by simp
  have f: "req_file demoRequest = Some ''cat.png''" "req_file ?r2 = Some ''cat.png''"
    by (simp_all add: demoRequest_def)
  have p: "?path = userFilesDir demoEnv @ ''/'' @ ''cat.png''"
    "?path = userFilesDir ?e2 @ ''/'' @ ''cat.png''"
    by (simp_all add: demoEnv_def)
  have d: "?path \<in> set (disk demoWorld) \<and> \<not> unlinkFails demoEnv ?path"
    "?path \<notin> set (disk demoWorld) \<or> unlinkFails ?e2 ?path"
    by (simp_all add: demoEnv_def demoWorld_def)
  have undo: "?e2\<lparr>unlinkFails := unlinkFails demoEnv\<rparr> = demoEnv"
    "demoWorld\<lparr>disk := disk demoWorld\<rparr> = demoWorld"
    by simp_all
  note i1 = createPost_rollback [OF t(1) member(1) v1 f(1) p(1) prod.collapse [symmetric]]
  note i2 = createPost_rollback [OF t(2) member(2) v2 f(2) p(2) prod.collapse [symmetric]]
  have a: "code (fst (createPost demoEnv demoWorld demoRequest)) = 403"
    "Unlink ?path \<in> set (newEvents demoWorld (snd (createPost demoEnv demoWorld demoRequest)))"
    "?path \<notin> set (disk (snd (createPost demoEnv demoWorld demoRequest)))"
    using i1 d(1) by blast+
  have b: "ErrorUnlinkFailed ?path \<in> set (newEvents demoWorld (snd (createPost ?e2 demoWorld ?r2)))"
    "disk (snd (createPost ?e2 demoWorld ?r2)) = disk demoWorld"
    using i2 d(2) by blast+
  have "\<forall>u d. fst (createPost (?e2\<lparr>unlinkFails := u\<rparr>) (demoWorld\<lparr>disk := d\<rparr>) ?r2) =
      fst (createPost ?e2 demoWorld ?r2)"
    using i2 by blast
  then have "fst (createPost (?e2\<lparr>unlinkFails := unlinkFails demoEnv\<rparr>)
        (demoWorld\<lparr>disk := disk demoWorld\<rparr>) ?r2) = fst (createPost ?e2 demoWorld ?r2)"
    by blast
  then have c: "fst (createPost demoEnv demoWorld ?r2) = fst (createPost ?e2 demoWorld ?r2)"
    unfolding undo .
  show ?thesis
    by (intro conjI a b c)
qed

subsection \<open>The sweep\<close>

lemma deleteFirst_filter:
  "distinct (map f xs) \<Longrightarrow> deleteFirst (\<lambda>x. f x = i) xs = filter (\<lambda>x. f x \<noteq> i) xs"
proof (induction xs)
  case Nil
  then show ?case by simp
next
  case (Cons x xs)
  then have "f x = i \<Longrightarrow> filter (\<lambda>y. f y \<noteq> i) xs = xs"
    by (intro filter_True) (auto simp: image_iff)
  with Cons show ?case by auto
qed

lemma updateFirst_map:
  "distinct (map f xs) \<Longrightarrow> updateFirst (\<lambda>x. f x = i) g xs = map (\<lambda>x. if f x = i then g x else x) xs"
proof (induction xs)
  case Nil
  then show ?case by simp
next
  case (Cons x xs)
  then have "f x = i \<Longrightarrow> map (\<lambda>y. if f y = i then g y else y) xs = xs"
    by (intro map_idI) (auto simp: image_iff)
  with Cons show ?case by auto
qed

lemma cleanupLoop_count:
  "snd (cleanupLoop env cs w n) = n + length (filter (offensive env) cs)"
  by (induction cs arbitrary: w n) (simp_all add: Let_def offensive_def)

lemma cleanupLoop_log:
  "log (fst (cleanupLoop env cs w n)) = log w @ concat (map (sweepEvents env) cs)"
  by (induction cs arbitrary: w n)
    (simp_all add: Let_def offensive_def sweepEvents_def removeComment_def pullComments_def addLog_def)

lemma cleanupLoop_frame:
  "pendingPosts (fst (cleanupLoop env cs w n)) = pendingPosts w \<and>
   users (fst (cleanupLoop env cs w n)) = users w \<and>
   communities (fst (cleanupLoop env cs w n)) = communities w \<and>
   disk (fst (cleanupLoop env cs w n)) = disk w \<and>
   nextId (fst (cleanupLoop env cs w n)) = nextId w"
  by (induction cs arbitrary: w n)
    (simp_all add: Let_def removeComment_def pullComments_def addLog_def)

lemma cleanupLoop_comments:
  "distinct (map comment_id (comments w)) \<Longrightarrow>
   comments (fst (cleanupLoop env cs w n)) =
     filter (\<lambda>x. comment_id x \<notin> comment_id ` set (filter (offensive env) cs)) (comments w)"
proof (induction cs arbitrary: w n)
  case Nil
  then show ?case by simp
next
  case (Cons c cs)
  show ?case
  proof (cases "offensive env c")
    case True
    let ?w1 = "removeComment (comment_id c)
        (pullComments (comment_post c) (comment_id c)
          (addLog (snd (matchesRuleBased env (comment_content c))) w))"
    have c1: "comments ?w1 = filter (\<lambda>x. comment_id x \<noteq> comment_id c) (comments w)"
      using Cons.prems
      by (simp add: removeComment_def pullComments_def addLog_def deleteFirst_filter)
    then have d1: "distinct (map comment_id (comments ?w1))"
      using Cons.prems by (simp add: distinct_map_filter)
    show ?thesis
      using True Cons.IH [OF d1] c1
      by (simp add: Let_def offensive_def conj_commute cong: filter_cong)
  next
    case False
    then show ?thesis
      using Cons.IH [of "addLog (snd (matchesRuleBased env (comment_content c))) w"] Cons.prems
      by (simp add: Let_def offensive_def addLog_def)
  qed
qed

lemma withoutComments_Nil [simp]: "withoutComments [] p = p"
  by (simp add: withoutComments_def)

lemma withoutComments_id [simp]: "post_id (withoutComments bad p) = post_id p"
  by (simp add: withoutComments_def)

lemma withoutComments_Cons:
  "withoutComments (c # bad) p =
     withoutComments bad
       (if post_id p = comment_post c
        then p\<lparr>post_comments := removeAll (comment_id c) (post_comments p)\<rparr> else p)"
  by (auto simp: withoutComments_def removeAll_filter_not_eq intro!: filter_cong)

lemma cleanupLoop_posts:
  "distinct (map post_id (posts w)) \<Longrightarrow>
   posts (fst (cleanupLoop env cs w n)) =
     map (withoutComments (filter (offensive env) cs)) (posts w)"
proof (induction cs arbitrary: w n)
  case Nil
  then show ?case by simp
next
  case (Cons c cs)
  show ?case
  proof (cases "offensive env c")
    case True
    let ?w1 = "removeComment (comment_id c)
        (pullComments (comment_post c) (comment_id c)
          (addLog (snd (matchesRuleBased env (comment_content c))) w))"
    have p1: "posts ?w1 =
        map (\<lambda>p. if post_id p = comment_post c
                 then p\<lparr>post_comments := removeAll (comment_id c) (post_comments p)\<rparr> else p) (posts w)"
      using Cons.prems
      by (simp add: removeComment_def pullComments_def addLog_def updateFirst_map)
    have "map post_id (posts ?w1) = map post_id (posts w)"
      unfolding p1 by (simp add: comp_def if_distrib cong: if_cong)
    then have d1: "distinct (map post_id (posts ?w1))"
      using Cons.prems by simp
    show ?thesis
      using True Cons.IH [OF d1] p1
      by (simp add: Let_def offensive_def withoutComments_Cons comp_def)
  next
    case False
    then show ?thesis
      using Cons.IH [of "addLog (snd (matchesRuleBased env (comment_content c))) w"] Cons.prems
      by (simp add: Let_def offensive_def addLog_def)
  qed
qed


lemma sweepEvents_not_scorer: "e \<in> set (sweepEvents env c) \<Longrightarrow> \<not> scorerEvent e"
  using matchesRuleBased_events [of e env "comment_content c"] matcher_not_scorer [of e]
  by (auto simp: sweepEvents_def split: if_splits)

lemma filter_offensive_ids:
  assumes "distinct (map comment_id cs)"
  shows "filter (\<lambda>x. comment_id x \<notin> comment_id ` set (filter P cs)) cs = filter (\<lambda>c. \<not> P c) cs"
proof (rule filter_cong [OF refl])
  fix x assume x: "x \<in> set cs"
  have "y = x" if "y \<in> set cs" "comment_id y = comment_id x" for y
    using assms x that by (meson distinct_map inj_onD)
  then show "(comment_id x \<notin> comment_id ` set (filter P cs)) = (\<not> P x)"
    using x by auto
qed

text \<open>
  C7. \<open>cleanupOffensiveComments\<close> does nothing but answer 403 unless the caller is a
  user with the role \<open>admin\<close>. For an admin it checks every stored comment with the
  rule matcher, and the scorer is never called; for each comment a rule matches it
  first pulls the comment's id from the comment list of its parent post and then
  deletes the comment. The count in the response is the number of matching comments,
  which is the number of comments gone from the store; the comments no rule matches
  stay as they are, in order; and each post loses exactly the references to the removed
  comments that name it as parent. (Document ids are unique.)
\<close>

theorem cleanupOffensiveComments_spec:
  assumes "cleanupOffensiveComments env w req = (r, w')"
  shows
    "((findUserById (userId req) w = None \<or>
       (\<exists>u. findUserById (userId req) w = Some u \<and> role u \<noteq> ''admin'')) \<longrightarrow>
        r = Response 403 (Message ''Admin access required'') \<and> w' = w)
     \<and> ((\<exists>u. findUserById (userId req) w = Some u \<and> role u = ''admin'') \<longrightarrow>
          r = Response 200
                (CleanupResult
                   (''Cleanup complete. Removed '' @
                    showNat (length (filter (offensive env) (comments w))) @
                    '' offensive comments.'')
                   (length (filter (offensive env) (comments w)))) \<and>
          newEvents w w' = concat (map (sweepEvents env) (comments w)) \<and>
          (\<forall>e\<in>set (newEvents w w'). \<not> scorerEvent e) \<and>
          (distinct (map comment_id (comments w)) \<longrightarrow>
             comments w' = filter (\<lambda>c. \<not> offensive env c) (comments w) \<and>
             length (comments w) - length (comments w') =
               length (filter (offensive env) (comments w))) \<and>
          (distinct (map post_id (posts w)) \<longrightarrow>
             posts w' = map (withoutComments (filter (offensive env) (comments w))) (posts w)) \<and>
          pendingPosts w' = pendingPosts w \<and> users w' = users w)"
proof (intro conjI impI)
  assume "findUserById (userId req) w = None \<or>
       (\<exists>u. findUserById (userId req) w = Some u \<and> role u \<noteq> ''admin'')"
  then have "cleanupOffensiveComments env w req = (Response 403 (Message ''Admin access required''), w)"
    by (auto simp: cleanupOffensiveComments_def)
  with assms show "r = Response 403 (Message ''Admin access required'')" "w' = w"
    by simp_all
next
  assume "\<exists>u. findUserById (userId req) w = Some u \<and> role u = ''admin''"
  then have eq: "cleanupOffensiveComments env w req =
      (Response 200
         (CleanupResult
            (''Cleanup complete. Removed '' @ showNat (snd (cleanupLoop env (comments w) w 0)) @
             '' offensive comments.'')
            (snd (cleanupLoop env (comments w) w 0))),
       fst (cleanupLoop env (comments w) w 0))"
    by (auto simp: cleanupOffensiveComments_def Let_def)
  have r: "r = Response 200
         (CleanupResult
            (''Cleanup complete. Removed '' @ showNat (snd (cleanupLoop env (comments w) w 0)) @
             '' offensive comments.'')
            (snd (cleanupLoop env (comments w) w 0)))"
    and w': "w' = fst (cleanupLoop env (comments w) w 0)"
    using eq assms by simp_all
  show "r = Response 200
                (CleanupResult
                   (''Cleanup complete. Removed '' @
                    showNat (length (filter (offensive env) (comments w))) @
                    '' offensive comments.'')
                   (length (filter (offensive env) (comments w))))"
    unfolding r by (simp add: cleanupLoop_count)
  show ev: "newEvents w w' = concat (map (sweepEvents env) (comments w))"
    unfolding w' by (simp add: newEvents_append cleanupLoop_log)
  show "\<forall>e\<in>set (newEvents w w'). \<not> scorerEvent e"
    unfolding ev using sweepEvents_not_scorer by auto
  show "pendingPosts w' = pendingPosts w" "users w' = users w"
    unfolding w' by (simp_all add: cleanupLoop_frame)
  {
    assume d: "distinct (map comment_id (comments w))"
    show c: "comments w' = filter (\<lambda>c. \<not> offensive env c) (comments w)"
      unfolding w' cleanupLoop_comments [OF d] by (rule filter_offensive_ids [OF d])
    have "length (filter (offensive env) (comments w)) + length (comments w') = length (comments w)"
      unfolding c by (rule sum_length_filter_compl)
    then show "length (comments w) - length (comments w') =
               length (filter (offensive env) (comments w))"
      by simp
  }
  {
    assume d: "distinct (map post_id (posts w))"
    show "posts w' = map (withoutComments (filter (offensive env) (comments w))) (posts w)"
      unfolding w' by (rule cleanupLoop_posts [OF d])
  }
qed


text \<open>
  Of the three stored comments one contains \<open>SPAM\<close>. The admin's sweep removes it and
  its reference; the sweep of an ordinary user changes nothing.
\<close>

theorem cleanupOffensiveComments_spec_witness:
  "fst (cleanupOffensiveComments demoEnv demoWorld (demoRequest\<lparr>userId := 1\<rparr>)) =
     Response 200 (CleanupResult ''Cleanup complete. Removed 1 offensive comments.'' 1)
   \<and> map comment_id (comments (snd (cleanupOffensiveComments demoEnv demoWorld
         (demoRequest\<lparr>userId := 1\<rparr>)))) = [40, 42]
   \<and> length (comments demoWorld) -
       length (comments (snd (cleanupOffensiveComments demoEnv demoWorld
         (demoRequest\<lparr>userId := 1\<rparr>)))) = 1
   \<and> map post_comments (posts (snd (cleanupOffensiveComments demoEnv demoWorld
         (demoRequest\<lparr>userId := 1\<rparr>)))) = [[40, 42]]
   \<and> AiCheck ''cheap SPAM'' \<notin> set (newEvents demoWorld
         (snd (cleanupOffensiveComments demoEnv demoWorld (demoRequest\<lparr>userId := 1\<rparr>))))
   \<and> cleanupOffensiveComments demoEnv demoWorld demoRequest =
       (Response 403 (Message ''Admin access required''), demoWorld)"
proof -
  let ?a = "demoRequest\<lparr>userId := 1\<rparr>"
  have admin: "\<exists>u. findUserById (userId ?a) demoWorld = Some u \<and> role u = ''admin''"
    by (simp add: findUserById_def demoWorld_def)
  have general: "findUserById (userId demoRequest) demoWorld = None \<or>
      (\<exists>u. findUserById (userId demoRequest) demoWorld = Some u \<and> role u \<noteq> ''admin'')"
    by (simp add: findUserById_def demoWorld_def demoRequest_def)
  have d: "distinct (map comment_id (comments demoWorld))" "distinct (map post_id (posts demoWorld))"
    by (simp_all add: demoWorld_def)
  have n: "length (filter (offensive demoEnv) (comments demoWorld)) = 1"
    by code_simp
  have msg: "''Cleanup complete. Removed '' @ showNat 1 @ '' offensive comments.'' =
      ''Cleanup complete. Removed 1 offensive comments.''"
    by code_simp
  have cs: "map comment_id (filter (\<lambda>c. \<not> offensive demoEnv c) (comments demoWorld)) = [40, 42]"
    by code_simp
  have ps: "map post_comments
      (map (withoutComments (filter (offensive demoEnv) (comments demoWorld))) (posts demoWorld)) =
      [[40, 42]]"
    by code_simp
  note i1 = cleanupOffensiveComments_spec [where env = demoEnv and w = demoWorld and req = ?a,
      OF prod.collapse [symmetric]]
  note i2 = cleanupOffensiveComments_spec [where env = demoEnv and w = demoWorld and req = demoRequest,
      OF prod.collapse [symmetric]]
  have a: "fst (cleanupOffensiveComments demoEnv demoWorld ?a) =
     Response 200 (CleanupResult ''Cleanup complete. Removed 1 offensive comments.'' 1)"
    using i1 admin unfolding n msg by blast
  have "comments (snd (cleanupOffensiveComments demoEnv demoWorld ?a)) =
      filter (\<lambda>c. \<not> offensive demoEnv c) (comments demoWorld)"
    using i1 admin d(1) by blast
  then have b: "map comment_id (comments (snd (cleanupOffensiveComments demoEnv demoWorld ?a))) = [40, 42]"
    using cs by simp
  have c: "length (comments demoWorld) -
       length (comments (snd (cleanupOffensiveComments demoEnv demoWorld ?a))) = 1"
    using i1 admin d(1) unfolding n by blast
  have "posts (snd (cleanupOffensiveComments demoEnv demoWorld ?a)) =
      map (withoutComments (filter (offensive demoEnv) (comments demoWorld))) (posts demoWorld)"
    using i1 admin d(2) by blast
  then have e: "map post_comments (posts (snd (cleanupOffensiveComments demoEnv demoWorld ?a))) = [[40, 42]]"
    using ps by simp
  have "\<forall>e\<in>set (newEvents demoWorld (snd (cleanupOffensiveComments demoEnv demoWorld ?a))).
      \<not> scorerEvent e"
    using i1 admin by blast
  then have f: "AiCheck ''cheap SPAM'' \<notin> set (newEvents demoWorld
         (snd (cleanupOffensiveComments demoEnv demoWorld ?a)))"
    by auto
  have "fst (cleanupOffensiveComments demoEnv demoWorld demoRequest) =
      Response 403 (Message ''Admin access required'') \<and>
      snd (cleanupOffensiveComments demoEnv demoWorld demoRequest) = demoWorld"
    using i2 general by blast
  then have g: "cleanupOffensiveComments demoEnv demoWorld demoRequest =
       (Response 403 (Message ''Admin access required''), demoWorld)"
    by (simp add: prod_eq_iff)
  show ?thesis
    by (intro conjI a b c e f g)
qed

subsection \<open>Expiry of pending posts\<close>

text \<open>
  The date of the query: \<open>setHours(getHours() - 1)\<close> goes one hour back on the local
  clock, whatever the hour is (from 00:30 to 23:30 of the day before).
\<close>

lemma time_of_parts:
  "MakeDate (Day t) (MakeTime (HourFromTime t) (MinFromTime t) (SecFromTime t) (msFromTime t)) = t"
proof -
  define s where "s = t div 1000"
  define m where "m = s div 60"
  define h where "h = m div 60"
  have d1: "t div 60000 = m"
    using zdiv_zmult2_eq [of 60 t 1000] by (simp add: m_def s_def)
  have d2: "t div 3600000 = h"
    using zdiv_zmult2_eq [of 60 t 60000] d1 by (simp add: h_def)
  have d3: "t div 86400000 = h div 24"
    using zdiv_zmult2_eq [of 24 t 3600000] d2 by simp
  have e1: "t = s * 1000 + t mod 1000"
    by (simp add: s_def)
  have e2: "s = m * 60 + s mod 60"
    by (simp add: m_def)
  have e3: "m = h * 60 + m mod 60"
    by (simp add: h_def)
  have e4: "h = (h div 24) * 24 + h mod 24"
    by simp
  have "(h div 24) * 86400000 + ((h mod 24) * 3600000 + (m mod 60) * 60000 + (s mod 60) * 1000 +
      t mod 1000) = t"
    using e1 e2 e3 e4 by linarith
  then show ?thesis
    by (simp add: MakeDate_def MakeTime_def Day_def HourFromTime_def MinFromTime_def SecFromTime_def
        msFromTime_def msPerDay_def msPerHour_def msPerMinute_def msPerSecond_def d1 d2 d3 s_def [symmetric])
qed

lemma hour_back: "setHours env d (getHours env d - 1) = UTC env (LocalTime env d - 3600000)"
proof -
  have "MakeDate (Day t) (MakeTime (HourFromTime t - 1) (MinFromTime t) (SecFromTime t) (msFromTime t)) =
      MakeDate (Day t) (MakeTime (HourFromTime t) (MinFromTime t) (SecFromTime t) (msFromTime t)) -
      3600000" for t
    by (simp add: MakeDate_def MakeTime_def msPerHour_def algebra_simps)
  then show ?thesis
    by (simp add: setHours_def getHours_def Let_def time_of_parts)
qed

lemma clearPendingPosts_moderator:
  "findUserById (userId req) w = Some u \<Longrightarrow> role u = ''moderator'' \<Longrightarrow>
   clearPendingPosts env w req =
     (Response 200 (Message ''Pending posts cleared''),
      deleteManyPending (UTC env (LocalTime env (now env) - 3600000)) w)"
  by (simp add: clearPendingPosts_def Let_def hour_back)

text \<open>
  C8. The cutoff is one hour back on the local clock of the server, which is not
  always one hour back in time. On a server whose clock was set back an hour 200
  seconds ago, the cutoff is two hours ago: the record created at 1000, more than an
  hour before \<open>now\<close>, survives the moderator's run. On a server whose clock was set
  forward an hour 200 seconds ago, the cutoff is \<open>now\<close>: the record created at
  5000000, less than an hour before \<open>now\<close>, is deleted.
\<close>

theorem clock_change_counterexample:
  "now autumnEnv - 3600000 = 3600000
   \<and> map createdAt (pendingPosts demoWorld) = [1000, 5000000]
   \<and> fst (clearPendingPosts autumnEnv demoWorld (demoRequest\<lparr>userId := 2\<rparr>)) =
       Response 200 (Message ''Pending posts cleared'')
   \<and> map createdAt (pendingPosts (snd (clearPendingPosts autumnEnv demoWorld
        (demoRequest\<lparr>userId := 2\<rparr>)))) = [1000, 5000000]
   \<and> now springEnv - 3600000 = 3600000
   \<and> fst (clearPendingPosts springEnv demoWorld (demoRequest\<lparr>userId := 2\<rparr>)) =
       Response 200 (Message ''Pending posts cleared'')
   \<and> map createdAt (pendingPosts (snd (clearPendingPosts springEnv demoWorld
        (demoRequest\<lparr>userId := 2\<rparr>)))) = []"
  by code_simp

text \<open>
  C8, as the code has it. \<open>clearPendingPosts\<close> deletes only for a caller with the role
  \<open>moderator\<close>: any other caller gets 401 (500 when the user is not stored) and the
  store is unchanged. For a moderator it deletes every pending record whose
  \<open>createdAt\<close> is at or before the cutoff, whoever owns it and whatever its status, and
  keeps the others; no record at or before the cutoff survives, so a second run with
  the same clock deletes nothing more. The cutoff is the date \<open>setHours(getHours() - 1)\<close>
  makes of now: the time at which the local clock of the server showed one hour less
  than it shows now. It is one hour before now when the local clock is as far ahead of
  UTC at that time as it is now.
\<close>

theorem clearPendingPosts_spec:
  assumes "clearPendingPosts env w req = (r, w')"
    and "cutoff = UTC env (LocalTime env (now env) - 3600000)"
  shows
    "(findUserById (userId req) w = None \<longrightarrow>
        r = Response 500 (Message ''Error clearing pending posts'') \<and> w' = w)
     \<and> ((\<exists>u. findUserById (userId req) w = Some u \<and> role u \<noteq> ''moderator'') \<longrightarrow>
          r = Response 401 (Message ''Unauthorized'') \<and> w' = w)
     \<and> ((\<exists>u. findUserById (userId req) w = Some u \<and> role u = ''moderator'') \<longrightarrow>
          r = Response 200 (Message ''Pending posts cleared'') \<and>
          pendingPosts w' = filter (\<lambda>p. cutoff < createdAt p) (pendingPosts w) \<and>
          (\<forall>p\<in>set (pendingPosts w). createdAt p \<le> cutoff \<longrightarrow> p \<notin> set (pendingPosts w')) \<and>
          (\<forall>p\<in>set (pendingPosts w'). cutoff < createdAt p) \<and>
          posts w' = posts w \<and> comments w' = comments w \<and> users w' = users w \<and>
          fst (clearPendingPosts env w' req) = r \<and>
          pendingPosts (snd (clearPendingPosts env w' req)) = pendingPosts w' \<and>
          length (pendingPosts w') - length (pendingPosts (snd (clearPendingPosts env w' req))) = 0)
     \<and> cutoff = setHours env (now env) (getHours env (now env) - 1)
     \<and> (LocalTime env (now env) = now env + offset \<and>
        UTC env (now env + offset - 3600000) = now env + offset - 3600000 - offset \<longrightarrow>
        cutoff = now env - 3600000)"
proof (intro conjI impI)
  assume "findUserById (userId req) w = None"
  with assms show "r = Response 500 (Message ''Error clearing pending posts'')" "w' = w"
    by (simp_all add: clearPendingPosts_def)
next
  assume "\<exists>u. findUserById (userId req) w = Some u \<and> role u \<noteq> ''moderator''"
  with assms show "r = Response 401 (Message ''Unauthorized'')" "w' = w"
    by (auto simp: clearPendingPosts_def)
next
  assume m: "\<exists>u. findUserById (userId req) w = Some u \<and> role u = ''moderator''"
  have run: "clearPendingPosts env v req =
      (Response 200 (Message ''Pending posts cleared''), deleteManyPending cutoff v)"
    if "users v = users w" for v
  proof -
    have "findUserById (userId req) v = findUserById (userId req) w"
      using that by (simp add: findUserById_def)
    with m obtain u where "findUserById (userId req) v = Some u" "role u = ''moderator''"
      by auto
    then show ?thesis
      unfolding assms(2) by (rule clearPendingPosts_moderator)
  qed
  have r: "r = Response 200 (Message ''Pending posts cleared'')" and w': "w' = deleteManyPending cutoff w"
    using run [of w] assms(1) by simp_all
  have u: "users w' = users w"
    unfolding w' by (simp add: deleteManyPending_def)
  have pp: "pendingPosts (deleteManyPending cutoff v) = filter (\<lambda>p. cutoff < createdAt p) (pendingPosts v)" for v
    by (simp add: deleteManyPending_def not_le)
  show "r = Response 200 (Message ''Pending posts cleared'')"
    by (rule r)
  show "pendingPosts w' = filter (\<lambda>p. cutoff < createdAt p) (pendingPosts w)"
    unfolding w' by (rule pp)
  show "\<forall>p\<in>set (pendingPosts w). createdAt p \<le> cutoff \<longrightarrow> p \<notin> set (pendingPosts w')"
    unfolding w' pp by auto
  show "\<forall>p\<in>set (pendingPosts w'). cutoff < createdAt p"
    unfolding w' pp by auto
  show "posts w' = posts w" "comments w' = comments w" "users w' = users w"
    unfolding w' by (simp_all add: deleteManyPending_def)
  show "fst (clearPendingPosts env w' req) = r"
    unfolding run [OF u] r by simp
  show again: "pendingPosts (snd (clearPendingPosts env w' req)) = pendingPosts w'"
    unfolding run [OF u] snd_conv pp unfolding w' pp by simp
  show "length (pendingPosts w') - length (pendingPosts (snd (clearPendingPosts env w' req))) = 0"
    unfolding again by simp
next
  show "cutoff = setHours env (now env) (getHours env (now env) - 1)"
    unfolding assms(2) by (rule hour_back [symmetric])
next
  assume "LocalTime env (now env) = now env + offset \<and>
        UTC env (now env + offset - 3600000) = now env + offset - 3600000 - offset"
  then show "cutoff = now env - 3600000"
    unfolding assms(2) by simp
qed

text \<open>
  On a server on UTC at time 7200000 the cutoff is 3600000: the moderator's run deletes
  the record created at 1000 and keeps the one created at 5000000; the admin's run is
  refused.
\<close>

theorem clearPendingPosts_spec_witness:
  "fst (clearPendingPosts demoEnv demoWorld (demoRequest\<lparr>userId := 2\<rparr>)) =
     Response 200 (Message ''Pending posts cleared'')
   \<and> map pending_id (pendingPosts (snd (clearPendingPosts demoEnv demoWorld
        (demoRequest\<lparr>userId := 2\<rparr>)))) = [31]
   \<and> pendingPosts (snd (clearPendingPosts demoEnv
        (snd (clearPendingPosts demoEnv demoWorld (demoRequest\<lparr>userId := 2\<rparr>)))
        (demoRequest\<lparr>userId := 2\<rparr>))) =
       pendingPosts (snd (clearPendingPosts demoEnv demoWorld (demoRequest\<lparr>userId := 2\<rparr>)))
   \<and> clearPendingPosts demoEnv demoWorld (demoRequest\<lparr>userId := 1\<rparr>) =
       (Response 401 (Message ''Unauthorized''), demoWorld)
   \<and> clearPendingPosts demoEnv demoWorld (demoRequest\<lparr>userId := 9\<rparr>) =
       (Response 500 (Message ''Error clearing pending posts''), demoWorld)
   \<and> setHours demoEnv (now demoEnv) (getHours demoEnv (now demoEnv) - 1) = now demoEnv - 3600000"
proof -
  let ?m = "demoRequest\<lparr>userId := 2\<rparr>" and ?a = "demoRequest\<lparr>userId := 1\<rparr>"
    and ?x = "demoRequest\<lparr>userId := 9\<rparr>"
  let ?cut = "UTC demoEnv (LocalTime demoEnv (now demoEnv) - 3600000)"
  have moderator: "\<exists>u. findUserById (userId ?m) demoWorld = Some u \<and> role u = ''moderator''"
    by (simp add: findUserById_def demoWorld_def)
  have admin: "\<exists>u. findUserById (userId ?a) demoWorld = Some u \<and> role u \<noteq> ''moderator''"
    by (simp add: findUserById_def demoWorld_def)
  have nobody: "findUserById (userId ?x) demoWorld = None"
    by (simp add: findUserById_def demoWorld_def)
  have k: "map pending_id (filter (\<lambda>p. ?cut < createdAt p) (pendingPosts demoWorld)) = [31]"
    by (simp add: demoEnv_def demoWorld_def)
  have z: "LocalTime demoEnv (now demoEnv) = now demoEnv + 0 \<and>
      UTC demoEnv (now demoEnv + 0 - 3600000) = now demoEnv + 0 - 3600000 - 0"
    by (simp add: demoEnv_def)
  note i1 = clearPendingPosts_spec [where env = demoEnv and w = demoWorld and req = ?m
      and offset = 0, OF prod.collapse [symmetric] refl]
  note i2 = clearPendingPosts_spec [where env = demoEnv and w = demoWorld and req = ?a,
      OF prod.collapse [symmetric] refl]
  note i3 = clearPendingPosts_spec [where env = demoEnv and w = demoWorld and req = ?x,
      OF prod.collapse [symmetric] refl]
  have a: "fst (clearPendingPosts demoEnv demoWorld ?m) = Response 200 (Message ''Pending posts cleared'')"
    using i1 [THEN conjunct2, THEN conjunct2, THEN conjunct1] moderator by blast
  have "pendingPosts (snd (clearPendingPosts demoEnv demoWorld ?m)) =
      filter (\<lambda>p. ?cut < createdAt p) (pendingPosts demoWorld)"
    using i1 [THEN conjunct2, THEN conjunct2, THEN conjunct1] moderator by blast
  then have b: "map pending_id (pendingPosts (snd (clearPendingPosts demoEnv demoWorld ?m))) = [31]"
    using k by simp
  have c: "pendingPosts (snd (clearPendingPosts demoEnv (snd (clearPendingPosts demoEnv demoWorld ?m)) ?m)) =
       pendingPosts (snd (clearPendingPosts demoEnv demoWorld ?m))"
    using i1 [THEN conjunct2, THEN conjunct2, THEN conjunct1] moderator by blast
  have "fst (clearPendingPosts demoEnv demoWorld ?a) = Response 401 (Message ''Unauthorized'') \<and>
      snd (clearPendingPosts demoEnv demoWorld ?a) = demoWorld"
    using i2 [THEN conjunct2, THEN conjunct1] admin by blast
  then have d: "clearPendingPosts demoEnv demoWorld ?a = (Response 401 (Message ''Unauthorized''), demoWorld)"
    by (simp add: prod_eq_iff)
  have "fst (clearPendingPosts demoEnv demoWorld ?x) =
        Response 500 (Message ''Error clearing pending posts'') \<and>
      snd (clearPendingPosts demoEnv demoWorld ?x) = demoWorld"
    using i3 [THEN conjunct1] nobody by blast
  then have e: "clearPendingPosts demoEnv demoWorld ?x =
      (Response 500 (Message ''Error clearing pending posts''), demoWorld)"
    by (simp add: prod_eq_iff)
  have "?cut = setHours demoEnv (now demoEnv) (getHours demoEnv (now demoEnv) - 1)"
    "?cut = now demoEnv - 3600000"
    using i1 [THEN conjunct2, THEN conjunct2, THEN conjunct2] z by blast+
  then have f: "setHours demoEnv (now demoEnv) (getHours demoEnv (now demoEnv) - 1) =
      now demoEnv - 3600000"
    by simp
  show ?thesis
    by (intro conjI a b c d e f)
qed

subsection \<open>Confirming and rejecting a pending post\<close>

lemma findOnePending_Some:
  "findOnePending tok uid w = Some p \<Longrightarrow>
   p \<in> set (pendingPosts w) \<and> confirmationToken p = tok \<and> status p = ''pending'' \<and> pending_user p = uid"
  by (auto simp: findOnePending_def pendingFilter_def find_Some_iff)

lemma findOnePending_None:
  "findOnePending tok uid w = None \<longleftrightarrow>
   \<not> (\<exists>p\<in>set (pendingPosts w). confirmationToken p = tok \<and> pending_user p = uid \<and> status p = ''pending'')"
  by (auto simp: findOnePending_def pendingFilter_def find_None_iff)

lemma set_deleteFirst: "set (deleteFirst P xs) \<subseteq> set xs"
  by (induction xs) auto

lemma confirmPost_found:
  assumes "findOnePending (params_confirmationToken req) (userId req) w = Some p"
  shows "\<exists>q. confirmPost w req =
      (Response 200 (PostJson q),
       snd (savePost (postOfPending p) (findOneAndDeletePending (params_confirmationToken req) w)))"
proof -
  obtain q where "findPostById
      (fst (savePost (postOfPending p) (findOneAndDeletePending (params_confirmationToken req) w)))
      (snd (savePost (postOfPending p) (findOneAndDeletePending (params_confirmationToken req) w))) = Some q"
    using findPostById_saved by blast
  then show ?thesis
    using assms by (simp add: confirmPost_def Let_def)
qed

lemma confirmPost_missing:
  assumes "findOnePending (params_confirmationToken req) (userId req) w = None"
  shows "confirmPost w req = (Response 404 (Message ''Post not found''), w)"
  using assms by (simp add: confirmPost_def)

lemma findOneAndDeletePending_simps [simp]:
  "pendingPosts (findOneAndDeletePending tok w) =
     deleteFirst (\<lambda>p. confirmationToken p = tok) (pendingPosts w)"
  "posts (findOneAndDeletePending tok w) = posts w"
  "log (findOneAndDeletePending tok w) = log w @ [DeletePending tok]"
  "nextId (findOneAndDeletePending tok w) = nextId w"
  by (simp_all add: findOneAndDeletePending_def)


lemma steps_rejectPost: "steps 2 (RejectFind req) w = (Finished (fst (rejectPost w req)), snd (rejectPost w req))"
  by (simp add: eval_nat_numeral rejectPost_def split: option.splits)



lemma confirmPost_effect:
  assumes "findOnePending (params_confirmationToken req) (userId req) w = Some p"
  shows "code (fst (confirmPost w req)) = 200"
    and "posts (snd (confirmPost w req)) = posts w @ [(postOfPending p)\<lparr>post_id := nextId w\<rparr>]"
    and "pendingPosts (snd (confirmPost w req)) =
       deleteFirst (\<lambda>p. confirmationToken p = params_confirmationToken req) (pendingPosts w)"
    and "newEvents w (snd (confirmPost w req)) =
       [DeletePending (params_confirmationToken req), InsertPost (nextId w)]"
  using confirmPost_found [OF assms] by (auto simp: newEvents_append)



text \<open>
  C10. After a successful \<open>confirmPost\<close> the new post carries the user, community,
  content, file URL and file type of the pending record it was made from, as they
  were; the handler's only events are its two store writes, so neither the rule
  matcher nor the scorer is run: the content is published even when a rule of the
  current configuration matches it.
\<close>

theorem confirmPost_publishes_unchecked:
  assumes "confirmPost w req = (r, w')" and "code r = 200"
  shows
    "\<exists>p. findOnePending (params_confirmationToken req) (userId req) w = Some p \<and>
       posts w' =
         posts w @
         [\<lparr>post_id = nextId w, post_user = pending_user p, post_community = pending_community p,
           post_content = pending_content p, post_fileUrl = pending_fileUrl p,
           post_fileType = pending_fileType p, post_comments = []\<rparr>] \<and>
       newEvents w w' = [DeletePending (params_confirmationToken req), InsertPost (nextId w)] \<and>
       (\<forall>e\<in>set (newEvents w w'). \<not> matcherEvent e \<and> \<not> scorerEvent e) \<and>
       (\<forall>env. fst (matchesRuleBased env (pending_content p)) \<longrightarrow>
          post_content (last (posts w')) = pending_content p)"
proof (cases "findOnePending (params_confirmationToken req) (userId req) w")
  case None
  then show ?thesis
    using assms confirmPost_missing [of req w] by auto
next
  case (Some p)
  note e = confirmPost_effect [OF Some]
  have w': "w' = snd (confirmPost w req)"
    using assms(1) by simp
  show ?thesis
    using Some e(2,4) unfolding w' by (simp add: postOfPending_def)
qed

text \<open>
  The pending content \<open>buy spam here\<close> is matched by the rule \<open>spam\<close>, and it is
  published by the confirmation without a rule check.
\<close>

theorem confirmPost_publishes_unchecked_witness:
  "fst (matchesRuleBased demoEnv (Some ''buy spam here''))
   \<and> map post_content (posts (snd (confirmPost demoWorld demoRequest))) =
       [Some ''first'', Some ''buy spam here'']
   \<and> map post_fileUrl (posts (snd (confirmPost demoWorld demoRequest))) =
       [None, Some ''/files/a.png'']
   \<and> RuleCheck (Some ''buy spam here'') \<notin>
       set (newEvents demoWorld (snd (confirmPost demoWorld demoRequest)))
   \<and> AiCheck ''buy spam here'' \<notin> set (newEvents demoWorld (snd (confirmPost demoWorld demoRequest)))"
proof -
  have ok: "code (fst (confirmPost demoWorld demoRequest)) = 200"
    by code_simp
  obtain p where p: "findOnePending (params_confirmationToken demoRequest) (userId demoRequest) demoWorld = Some p"
    and posts: "posts (snd (confirmPost demoWorld demoRequest)) =
         posts demoWorld @
         [\<lparr>post_id = nextId demoWorld, post_user = pending_user p,
           post_community = pending_community p, post_content = pending_content p,
           post_fileUrl = pending_fileUrl p, post_fileType = pending_fileType p,
           post_comments = []\<rparr>]"
    and ev: "\<forall>e\<in>set (newEvents demoWorld (snd (confirmPost demoWorld demoRequest))).
        \<not> matcherEvent e \<and> \<not> scorerEvent e"
    using confirmPost_publishes_unchecked [OF prod.collapse [symmetric] ok] by blast
  have "p = hd (pendingPosts demoWorld)"
    using p by (simp add: findOnePending_def pendingFilter_def demoWorld_def demoRequest_def)
  then have f: "pending_content p = Some ''buy spam here''" "pending_fileUrl p = Some ''/files/a.png''"
    by (simp_all add: demoWorld_def)
  have a: "fst (matchesRuleBased demoEnv (Some ''buy spam here''))"
    by code_simp
  have b: "map post_content (posts (snd (confirmPost demoWorld demoRequest))) =
       [Some ''first'', Some ''buy spam here'']"
    unfolding posts by (simp add: f demoWorld_def)
  have c: "map post_fileUrl (posts (snd (confirmPost demoWorld demoRequest))) =
       [None, Some ''/files/a.png'']"
    unfolding posts by (simp add: f demoWorld_def)
  have d: "RuleCheck (Some ''buy spam here'') \<notin>
       set (newEvents demoWorld (snd (confirmPost demoWorld demoRequest)))"
    "AiCheck ''buy spam here'' \<notin> set (newEvents demoWorld (snd (confirmPost demoWorld demoRequest)))"
    using ev by auto
  show ?thesis
    by (intro conjI a b c d)
qed

subsection \<open>Two requests on one token\<close>

lemma step_keeps_gone:
  assumes "tok \<notin> confirmationToken ` set (pendingPosts w)"
  shows "tok \<notin> confirmationToken ` set (pendingPosts (snd (step t w)))"
proof -
  have "set (pendingPosts (snd (step t w))) \<subseteq> set (pendingPosts w)"
    by (cases t)
      (auto simp: removePending_def savePost_def split: option.splits
        dest: set_deleteFirst [THEN subsetD])
  with assms show ?thesis by blast
qed

lemma find_when_gone:
  assumes "tok \<notin> confirmationToken ` set (pendingPosts w)" and "params_confirmationToken r = tok"
  shows "step (ConfirmFind r) w = (Finished (Response 404 (Message ''Post not found'')), w)"
    and "step (RejectFind r) w = (Finished (Response 404 (Message ''Post not found'')), w)"
proof -
  have "findOnePending (params_confirmationToken r) (userId r) w = None"
    unfolding findOnePending_None using assms by (auto simp: image_iff)
  then show "step (ConfirmFind r) w = (Finished (Response 404 (Message ''Post not found'')), w)"
    and "step (RejectFind r) w = (Finished (Response 404 (Message ''Post not found'')), w)"
    by simp_all
qed

lemma run_second_finished: "run sched t1 (Finished r) w = (t1', t2', w') \<Longrightarrow> t2' = Finished r"
  by (induction sched arbitrary: t1 w) (auto split: if_splits)

lemma run_second_after_gone:
  assumes "tok \<notin> confirmationToken ` set (pendingPosts w)" and "params_confirmationToken r2 = tok"
    and "t2 = ConfirmFind r2 \<or> t2 = RejectFind r2 \<or>
         t2 = Finished (Response 404 (Message ''Post not found''))"
    and "run sched t1 t2 w = (t1', t2', w')"
  shows "(t2' = ConfirmFind r2 \<or> t2' = RejectFind r2 \<or>
          t2' = Finished (Response 404 (Message ''Post not found''))) \<and>
         (False \<in> set sched \<longrightarrow> t2' = Finished (Response 404 (Message ''Post not found'')))"
  using assms
proof (induction sched arbitrary: t1 t2 w)
  case Nil
  then show ?case by simp
next
  case (Cons b sched)
  show ?case
  proof (cases b)
    case True
    have "run sched (fst (step t1 w)) t2 (snd (step t1 w)) = (t1', t2', w')"
      using Cons.prems(4) True by simp
    from Cons.IH [OF step_keeps_gone [OF Cons.prems(1)] Cons.prems(2,3) this]
    show ?thesis using True by simp
  next
    case False
    have s: "step t2 w = (Finished (Response 404 (Message ''Post not found'')), w)"
      using Cons.prems(3) find_when_gone [OF Cons.prems(1,2)] by auto
    have "run sched t1 (Finished (Response 404 (Message ''Post not found''))) w = (t1', t2', w')"
      using Cons.prems(4) False s by simp
    then have "t2' = Finished (Response 404 (Message ''Post not found''))"
      by (rule run_second_finished)
    then show ?thesis by simp
  qed
qed

lemma run_first_finished: "run sched (Finished r) t2 w = (t1', t2', w') \<Longrightarrow> t1' = Finished r"
  by (induction sched arbitrary: t2 w) (auto split: if_splits)

lemma two_steps_consume:
  assumes "distinct (map confirmationToken (pendingPosts w))"
    and "distinct (map pending_id (pendingPosts w))"
    and "t1 = ConfirmFind r1 \<or> t1 = RejectFind r1"
  shows "steps 2 t1 w = (Finished (Response 404 (Message ''Post not found'')), w) \<or>
         params_confirmationToken r1 \<notin> confirmationToken ` set (pendingPosts (snd (steps 2 t1 w)))"
proof (cases "findOnePending (params_confirmationToken r1) (userId r1) w")
  case None
  then show ?thesis
    using assms(3) by (auto simp: eval_nat_numeral)
next
  case (Some p)
  note p = findOnePending_Some [OF Some]
  have only: "q = p" if "q \<in> set (pendingPosts w)" "confirmationToken q = params_confirmationToken r1" for q
    using assms(1) p that by (metis distinct_map inj_onD)
  have a: "params_confirmationToken r1 \<notin> confirmationToken `
      set (deleteFirst (\<lambda>q. confirmationToken q = params_confirmationToken r1) (pendingPosts w))"
    unfolding deleteFirst_filter [OF assms(1)] by auto
  have b: "params_confirmationToken r1 \<notin> confirmationToken `
      set (deleteFirst (\<lambda>q. pending_id q = pending_id p) (pendingPosts w))"
    unfolding deleteFirst_filter [OF assms(2)] using only by auto
  show ?thesis
    using assms(3) Some a b by (auto simp: eval_nat_numeral removePending_def)
qed

lemma run_two_first: "run (True # True # sched) t1 t2 w = run sched (fst (steps 2 t1 w)) t2 (snd (steps 2 t1 w))"
  by (simp add: eval_nat_numeral)

lemma not_succeeded_simps [simp]:
  "\<not> succeeded (ConfirmFind r)" "\<not> succeeded (RejectFind r)"
  "\<not> succeeded (Finished (Response 404 b))"
  by simp_all

text \<open>
  C4 as stated does not hold of the handlers: \<open>confirmPost\<close> looks the record up
  with \<open>findOne\<close> and only then deletes it, without looking at what the delete
  found. Two confirms whose lookups both come before the first delete both publish
  the post, and so do a confirm and a reject both answer with success. (The store
  has unique tokens and ids.)
\<close>

theorem concurrent_confirm_counterexample:
  "succeeded (fst (run [True, False, True, False, True, False, True, False]
      (ConfirmFind demoRequest) (ConfirmFind demoRequest) demoWorld))
   \<and> succeeded (fst (snd (run [True, False, True, False, True, False, True, False]
      (ConfirmFind demoRequest) (ConfirmFind demoRequest) demoWorld)))
   \<and> map post_content (posts (snd (snd (run [True, False, True, False, True, False, True, False]
      (ConfirmFind demoRequest) (ConfirmFind demoRequest) demoWorld)))) =
     [Some ''first'', Some ''buy spam here'', Some ''buy spam here'']
   \<and> succeeded (fst (run [True, False, True, False, True, True]
      (ConfirmFind demoRequest) (RejectFind demoRequest) demoWorld))
   \<and> succeeded (fst (snd (run [True, False, True, False, True, True]
      (ConfirmFind demoRequest) (RejectFind demoRequest) demoWorld)))
   \<and> distinct (map confirmationToken (pendingPosts demoWorld))
   \<and> distinct (map pending_id (pendingPosts demoWorld))"
  by code_simp

text \<open>
  C4, as the code has it. Pending records have unique tokens and ids. When one
  operation, a confirm or a reject, has done its lookup and its delete before the other
  operation on the same token takes its first step, the two never both succeed, and
  once the other has run it has answered 404. This covers two operations that run one
  after the other.
\<close>

theorem second_operation_not_found:
  assumes "distinct (map confirmationToken (pendingPosts w))"
    and "distinct (map pending_id (pendingPosts w))"
    and "t1 = ConfirmFind r1 \<or> t1 = RejectFind r1"
    and "t2 = ConfirmFind r2 \<or> t2 = RejectFind r2"
    and "params_confirmationToken r1 = params_confirmationToken r2"
    and "run (True # True # sched) t1 t2 w = (t1', t2', w')"
  shows "\<not> (succeeded t1' \<and> succeeded t2') \<and>
         (succeeded t1' \<and> False \<in> set sched \<longrightarrow>
            t2' = Finished (Response 404 (Message ''Post not found'')))"
proof -
  have rn: "run sched (fst (steps 2 t1 w)) t2 (snd (steps 2 t1 w)) = (t1', t2', w')"
    using assms(6) unfolding run_two_first .
  from two_steps_consume [OF assms(1,2,3)] show ?thesis
  proof
    assume "steps 2 t1 w = (Finished (Response 404 (Message ''Post not found'')), w)"
    then have "t1' = Finished (Response 404 (Message ''Post not found''))"
      using rn run_first_finished by simp
    then show ?thesis by simp
  next
    assume gone: "params_confirmationToken r1 \<notin>
        confirmationToken ` set (pendingPosts (snd (steps 2 t1 w)))"
    have t2: "t2 = ConfirmFind r2 \<or> t2 = RejectFind r2 \<or>
         t2 = Finished (Response 404 (Message ''Post not found''))"
      using assms(4) by blast
    from run_second_after_gone [OF gone assms(5) [symmetric] t2 rn]
    show ?thesis by auto
  qed
qed


text \<open>
  A confirm runs to its end, then a reject of the same token runs: the confirm
  succeeds and the reject answers 404.
\<close>

theorem second_operation_not_found_witness:
  "succeeded (fst (run [True, True, True, True, False, False]
      (ConfirmFind demoRequest) (RejectFind demoRequest) demoWorld))
   \<and> fst (snd (run [True, True, True, True, False, False]
      (ConfirmFind demoRequest) (RejectFind demoRequest) demoWorld)) =
     Finished (Response 404 (Message ''Post not found''))"
proof -
  let ?run = "run [True, True, True, True, False, False]
      (ConfirmFind demoRequest) (RejectFind demoRequest) demoWorld"
  have d: "distinct (map confirmationToken (pendingPosts demoWorld))"
    "distinct (map pending_id (pendingPosts demoWorld))"
    by (simp_all add: demoWorld_def)
  have a: "succeeded (fst ?run)"
    by code_simp
  have r: "?run = (fst ?run, fst (snd ?run), snd (snd ?run))"
    by simp
  have "succeeded (fst ?run) \<and> False \<in> set [True, True, False, False] \<longrightarrow>
      fst (snd ?run) = Finished (Response 404 (Message ''Post not found''))"
    using second_operation_not_found
      [where ?r1.0 = demoRequest and ?r2.0 = demoRequest, OF d _ _ refl r]
    by blast
  then have b: "fst (snd ?run) = Finished (Response 404 (Message ''Post not found''))"
    using a by simp
  show ?thesis
    by (intro conjI a b)
qed

end
